theory Spec2Isabelle
  imports Main "HOL-Library.Word"
begin

section \<open>cr0ssp0st0r: cross-posting from Mastodon to Bluesky (index.js)\<close>

text \<open>
  A shallow embedding of \<^verbatim>\<open>src/index.js\<close>. The functions of the script keep their
  names. What the script imports (string-strip-html, countGraphemes, Intl.Segmenter, the
  AT protocol agent, fetch, node-persist) is not part of the script: the pure library
  functions are the fields of a record \<open>lib\<close>, the answers of the outside world while
  one post is processed are the fields of a record \<open>world\<close>, and every function of
  the script takes them as arguments. Exceptions are values of type \<open>js_error\<close>; a
  function that can throw returns \<open>js_error + 'a\<close> with \<open>Inl\<close> the exception.
\<close>

subsection \<open>Strings\<close>

text \<open>
  A JavaScript string is a sequence of UTF-16 code units; \<open>length\<close> is the
  \<^verbatim>\<open>.length\<close> of the source. \<open>js\<close> writes an ASCII literal.
\<close>

type_synonym code_unit = "16 word"
type_synonym jsstring = "code_unit list"

definition js :: "string \<Rightarrow> jsstring" where
  "js s = map of_char s"

text \<open>The class \<^verbatim>\<open>\s\<close> of a JavaScript regular expression.\<close>

definition is_js_space :: "code_unit \<Rightarrow> bool" where
  "is_js_space c \<longleftrightarrow>
     c \<in> {0x09, 0x0A, 0x0B, 0x0C, 0x0D, 0x20, 0xA0, 0x1680, 0x2028, 0x2029, 0x202F,
          0x205F, 0x3000, 0xFEFF}
     \<or> (0x2000 \<le> c \<and> c \<le> 0x200A)"

text \<open>
  \<^verbatim>\<open>String.prototype.replaceAll\<close>: the text is scanned from the left; where the
  pattern matches (the matcher returns the length of the match at the head of its
  argument) the replacement is emitted and the scan goes on behind the match, elsewhere
  one code unit is copied.
\<close>

fun replaceAll_by :: "('a list \<Rightarrow> nat option) \<Rightarrow> 'a list \<Rightarrow> 'a list \<Rightarrow> 'a list" where
  "replaceAll_by m r [] = []"
| "replaceAll_by m r (c # cs) =
     (case m (c # cs) of
        Some n \<Rightarrow> r @ replaceAll_by m r (drop (n - 1) cs)
      | None \<Rightarrow> c # replaceAll_by m r cs)"

text \<open>The regular expression \<^verbatim>\<open>/<br\s?\/>/\<close> at the head of a text.\<close>

definition match_br :: "jsstring \<Rightarrow> nat option" where
  "match_br xs =
     (if take 3 xs = js ''<br'' then
        (case drop 3 xs of
           [] \<Rightarrow> None
         | c # r \<Rightarrow>
             if is_js_space c \<and> take 2 r = js ''/>'' then Some 6
             else if take 2 (c # r) = js ''/>'' then Some 5
             else None)
      else None)"

text \<open>A string pattern (not empty) at the head of a text.\<close>

definition match_str :: "jsstring \<Rightarrow> jsstring \<Rightarrow> nat option" where
  "match_str p xs = (if take (length p) xs = p then Some (length p) else None)"

subsection \<open>Errors\<close>

datatype js_error =
    TypeError
  | RangeError
  | DownloadReturnedStatus
  | UploadNotSuccessful
  | TransloadingFailed jsstring js_error
  | FailedToCreateBskyPost string
  | Rejected string

text \<open>
  \<open>TransloadingFailed url cause\<close> is the error of \<^verbatim>\<open>transloadMastodonMediaToBsky\<close>
  with its \<^verbatim>\<open>cause\<close>; \<open>Rejected\<close> is an exception raised inside a collaborator
  (network, destination API, storage engine).
\<close>

subsection \<open>The source post\<close>

record attachment =
  att_type :: string
  att_url :: jsstring
  att_description :: "string option"
  att_width :: nat
  att_height :: nat

record card =
  card_url :: jsstring
  card_title :: string
  card_description :: string
  card_image :: "jsstring option"

record status =
  status_id :: string
  account_id :: string
  visibility :: string
  muted :: "bool option"
  mentions :: "string list"
  inReplyToId :: "string option"
  inReplyToAccountId :: "string option"
  language :: "string option"
  content :: jsstring
  url :: jsstring
  createdAt :: string
  mediaAttachments :: "attachment list"
  card :: "card option"

text \<open>
  \<open>None\<close> is \<^verbatim>\<open>null\<close>. \<open>account_id\<close> is \<^verbatim>\<open>payload.account.id\<close>, and the width
  and height of an attachment are \<^verbatim>\<open>meta.original.width\<close> and
  \<^verbatim>\<open>meta.original.height\<close>.
\<close>

record mastodonEvent =
  event :: string
  payload :: status

subsection \<open>The destination post and the ledger\<close>

record identity =
  uri :: string
  cid :: string

record reply_ref =
  parent :: identity
  root :: identity

record blobRef =
  ref :: string
  original :: string

record aspect =
  width :: nat
  height :: nat

record embed_image =
  alt :: "string option"
  image :: blobRef
  aspectRatio :: aspect

record external =
  ext_uri :: jsstring
  ext_title :: string
  ext_description :: string
  ext_blob :: "string option"

datatype embed = Images "embed_image list" | External external

datatype facet = Facet nat nat string

record bskyPost =
  post_text :: jsstring
  facets :: "facet list"
  langs :: "string option list"
  post_createdAt :: string
  reply :: "reply_ref option"
  embed :: "embed option"

text \<open>
  A value of the ledger is \<^verbatim>\<open>{ bsky: null }\<close> or
  \<^verbatim>\<open>{ bsky: { post, root } }\<close> with \<^verbatim>\<open>root\<close> possibly \<^verbatim>\<open>null\<close>. The
  store maps a source post id to its value; \<open>None\<close> is a key that was never set, for
  which \<^verbatim>\<open>getItem\<close> gives \<^verbatim>\<open>undefined\<close>.
\<close>

record bsky_ref =
  entry_post :: identity
  entry_root :: "identity option"

record entry =
  bsky :: "bsky_ref option"

type_synonym store = "string \<rightharpoonup> entry"

subsection \<open>The pure libraries\<close>

record segment_data =
  segment :: jsstring
  isWordLike :: bool

text \<open>
  \<open>stripHtml\<close> is \<^verbatim>\<open>stripHtml(...).result\<close>; \<open>wordSegmenter language\<close> is
  \<^verbatim>\<open>new Intl.Segmenter(language, { granularity: "word" })\<close>, whose constructor throws
  on a language that is no language tag, and which otherwise gives the function
  \<^verbatim>\<open>segment\<close>. \<open>validateRecord\<close> is \<^verbatim>\<open>AppBskyFeedPost.validateRecord\<close>:
  \<open>None\<close> when the record is valid, the error otherwise.
\<close>

record lib =
  stripHtml :: "jsstring \<Rightarrow> jsstring"
  countGraphemes :: "jsstring \<Rightarrow> nat"
  wordSegmenter :: "string option \<Rightarrow> js_error + (jsstring \<Rightarrow> segment_data list)"
  validateRecord :: "bskyPost \<Rightarrow> string option"

subsection \<open>The outside world\<close>

text \<open>
  What the collaborators answer while one post is processed: the facets found in a
  text, the response to a download, the response to an upload, the identity given to a
  submitted post, and whether a read or a write of the storage engine throws.
  \<open>rejects_first\<close> is the timing of a \<^verbatim>\<open>Promise.all\<close>: given the places of the
  promises that reject, it chooses the one that rejects first in time.
\<close>

type_synonym bytes = "8 word list"

record response =
  ok :: bool
  blob :: "js_error + bytes"

record uploadResponse =
  success :: bool
  data_blob :: blobRef

record world =
  detectFacets :: "jsstring \<Rightarrow> js_error + facet list"
  fetch :: "jsstring \<Rightarrow> js_error + response"
  uploadBlob :: "bytes \<Rightarrow> js_error + uploadResponse"
  agent_post :: "bskyPost \<Rightarrow> js_error + identity"
  getItem_error :: "string \<Rightarrow> js_error option"
  setItem_error :: "string \<Rightarrow> entry \<Rightarrow> js_error option"
  rejects_first :: "nat list \<Rightarrow> nat"

subsection \<open>reformatText\<close>

text \<open>
  The \<^verbatim>\<open>for\<close> loop of \<open>reformatText\<close> over the word segments, with its two
  variables \<open>snippet\<close> and \<open>addToSnippet\<close>. \<open>Some\<close> is the \<^verbatim>\<open>return\<close> inside
  the loop, \<open>None\<close> is the loop running to its end.
\<close>

fun reformatText_loop ::
  "(jsstring \<Rightarrow> nat) \<Rightarrow> int \<Rightarrow> jsstring \<Rightarrow> jsstring \<Rightarrow> jsstring \<Rightarrow> segment_data list
     \<Rightarrow> jsstring option" where
  "reformatText_loop cg maxGraphemeCount u snippet addToSnippet [] = None"
| "reformatText_loop cg maxGraphemeCount u snippet addToSnippet (s # rest) =
     (let addToSnippet' = addToSnippet @ segment s in
      if isWordLike s then
        (if int (cg (snippet @ addToSnippet')) \<ge> maxGraphemeCount
         then Some (snippet @ [0x2026, 0x20] @ u)
         else reformatText_loop cg maxGraphemeCount u (snippet @ addToSnippet') [] rest)
      else reformatText_loop cg maxGraphemeCount u snippet addToSnippet' rest)"

text \<open>The constant \<^verbatim>\<open>text\<close> of \<open>reformatText\<close>.\<close>

definition plainText :: "lib \<Rightarrow> jsstring \<Rightarrow> jsstring" where
  "plainText L c =
     stripHtml L
       (replaceAll_by (match_str (js ''</p><p>'')) [0x0A, 0x0A]
          (replaceAll_by match_br [0x0A] c))"

definition reformatText :: "lib \<Rightarrow> status \<Rightarrow> js_error + jsstring" where
  "reformatText L mastodonStatus =
     (let text = plainText L (content mastodonStatus) in
      if countGraphemes L text > 300 then
        (let maxGraphemeCount = 300 - int (length (url mastodonStatus)) - 2 in
         case wordSegmenter L (language mastodonStatus) of
           Inl e \<Rightarrow> Inl e
         | Inr segments \<Rightarrow>
             (case reformatText_loop (countGraphemes L) maxGraphemeCount
                     (url mastodonStatus) [] [] (segments text) of
                Some r \<Rightarrow> Inr r
              | None \<Rightarrow> Inr text))
      else Inr text)"

subsection \<open>Contents as chunks and break elements\<close>

text \<open>
  The vocabulary for what the two replacements of \<open>reformatText\<close> do. A content is
  seen as chunks of text separated by break elements: a line-break element, written
  \<^verbatim>\<open><br/>\<close> or \<^verbatim>\<open><br\<close>, one white-space code unit, \<^verbatim>\<open>/>\<close>, or a paragraph
  boundary \<^verbatim>\<open></p><p>\<close>. \<open>join_with tag_of\<close> writes the pieces as the content,
  \<open>join_with newline_of\<close> writes them with a newline for each line-break element and
  two newlines for each paragraph boundary, and \<open>join_with line_breaks_replaced\<close> is
  the text between the two replacements. A chunk is a text in which no break element
  occurs: at none of its places does one of the two patterns match.
\<close>

datatype separator = LineBreak "code_unit option" | ParagraphBoundary

fun tag_of :: "separator \<Rightarrow> jsstring" where
  "tag_of (LineBreak None) = js ''<br/>''"
| "tag_of (LineBreak (Some c)) = js ''<br'' @ [c] @ js ''/>''"
| "tag_of ParagraphBoundary = js ''</p><p>''"

fun newline_of :: "separator \<Rightarrow> jsstring" where
  "newline_of (LineBreak c) = [0x0A]"
| "newline_of ParagraphBoundary = [0x0A, 0x0A]"

fun line_breaks_replaced :: "separator \<Rightarrow> jsstring" where
  "line_breaks_replaced (LineBreak c) = [0x0A]"
| "line_breaks_replaced ParagraphBoundary = js ''</p><p>''"

fun join_with :: "(separator \<Rightarrow> jsstring) \<Rightarrow> jsstring \<Rightarrow> (separator \<times> jsstring) list \<Rightarrow> jsstring" where
  "join_with f t [] = t"
| "join_with f t ((sep, t') # ps) = t @ f sep @ join_with f t' ps"

definition no_break_in :: "jsstring \<Rightarrow> bool" where
  "no_break_in t =
     list_all (\<lambda>i. match_br (drop i t) = None \<and> match_str (js ''</p><p>'') (drop i t) = None)
       [0..<length t]"

fun separator_ok :: "separator \<Rightarrow> bool" where
  "separator_ok (LineBreak (Some c)) = is_js_space c"
| "separator_ok sep = True"

definition pieces_ok :: "jsstring \<Rightarrow> (separator \<times> jsstring) list \<Rightarrow> bool" where
  "pieces_ok t ps =
     (no_break_in t \<and> list_all (\<lambda>(sep, t'). separator_ok sep \<and> no_break_in t') ps)"

text \<open>The pieces of a content, read from the left.\<close>

fun pieces_of :: "jsstring \<Rightarrow> jsstring \<times> (separator \<times> jsstring) list" where
  "pieces_of [] = ([], [])"
| "pieces_of (c # cs) =
     (case match_br (c # cs) of
        Some n \<Rightarrow>
          ([], (LineBreak (if n = 6 then Some (cs ! 2) else None),
                fst (pieces_of (drop (n - 1) cs))) # snd (pieces_of (drop (n - 1) cs)))
      | None \<Rightarrow>
          (case match_str (js ''</p><p>'') (c # cs) of
             Some n \<Rightarrow>
               ([], (ParagraphBoundary, fst (pieces_of (drop (n - 1) cs)))
                      # snd (pieces_of (drop (n - 1) cs)))
           | None \<Rightarrow> (c # fst (pieces_of cs), snd (pieces_of cs))))"

text \<open>
  A text without the characters of markup: no \<open><\<close>, \<open>>\<close> or \<open>&\<close>, and no white
  space at its ends.
\<close>

definition markup_free :: "jsstring \<Rightarrow> bool" where
  "markup_free t \<longleftrightarrow>
     0x3C \<notin> set t \<and> 0x3E \<notin> set t \<and> 0x26 \<notin> set t
     \<and> (t = [] \<or> (\<not> is_js_space (hd t) \<and> \<not> is_js_space (last t)))"

subsection \<open>Libraries for ASCII texts\<close>

text \<open>
  Concrete libraries, to run the script on ASCII inputs. \<open>stripHtml_tags\<close> deletes
  every tag \<^verbatim>\<open><...>\<close>: string-strip-html does so with a tag at the start or at the
  end of a text (between two words it leaves a space in place of the tag; the texts
  used below have their tags at both ends only, once the newlines are put in).
  \<open>countGraphemes_ascii\<close> counts one grapheme cluster for each code unit and one for
  a CR LF pair, as Unicode does on ASCII. \<open>segment_ascii_from []\<close> makes a word-like
  segment of every maximal run of ASCII letters and a segment that is not word-like of
  every other code unit, as the word segmenter does on texts made of letters, single
  spaces, newlines and exclamation marks. The constructor of the segmenter throws a
  \<open>TypeError\<close> on the language \<^verbatim>\<open>null\<close>.
\<close>

fun stripHtml_tags_from :: "bool \<Rightarrow> jsstring \<Rightarrow> jsstring" where
  "stripHtml_tags_from inside [] = []"
| "stripHtml_tags_from inside (c # cs) =
     (if inside then (if c = 0x3E then stripHtml_tags_from False cs
                      else stripHtml_tags_from True cs)
      else if c = 0x3C then stripHtml_tags_from True cs
      else c # stripHtml_tags_from False cs)"

definition stripHtml_tags :: "jsstring \<Rightarrow> jsstring" where
  "stripHtml_tags = stripHtml_tags_from False"

fun countGraphemes_ascii :: "jsstring \<Rightarrow> nat" where
  "countGraphemes_ascii (c # d # cs) =
     (if c = 0x0D \<and> d = 0x0A then Suc (countGraphemes_ascii cs)
      else Suc (countGraphemes_ascii (d # cs)))"
| "countGraphemes_ascii [c] = 1"
| "countGraphemes_ascii [] = 0"

definition is_ascii_letter :: "code_unit \<Rightarrow> bool" where
  "is_ascii_letter c \<longleftrightarrow> (0x41 \<le> c \<and> c \<le> 0x5A) \<or> (0x61 \<le> c \<and> c \<le> 0x7A)"

fun segment_ascii_from :: "jsstring \<Rightarrow> jsstring \<Rightarrow> segment_data list" where
  "segment_ascii_from w [] =
     (if w = [] then [] else [\<lparr>segment = w, isWordLike = True\<rparr>])"
| "segment_ascii_from w (c # cs) =
     (if is_ascii_letter c then segment_ascii_from (w @ [c]) cs
      else (if w = [] then [] else [\<lparr>segment = w, isWordLike = True\<rparr>])
           @ \<lparr>segment = [c], isWordLike = False\<rparr> # segment_ascii_from [] cs)"

definition wordSegmenter_ascii ::
  "string option \<Rightarrow> js_error + (jsstring \<Rightarrow> segment_data list)" where
  "wordSegmenter_ascii l =
     (case l of None \<Rightarrow> Inl TypeError | Some _ \<Rightarrow> Inr (segment_ascii_from []))"

definition ascii_lib :: lib where
  "ascii_lib =
     \<lparr>stripHtml = stripHtml_tags,
      countGraphemes = countGraphemes_ascii,
      wordSegmenter = wordSegmenter_ascii,
      validateRecord = (\<lambda>p. None)\<rparr>"

text \<open>
  A library whose stripper gives the text content of the markup: the tags are deleted
  and then the character references of \<open><\<close>, \<open>>\<close> and \<open>&\<close> are decoded.
\<close>

fun decode_entities :: "jsstring \<Rightarrow> jsstring" where
  "decode_entities [] = []"
| "decode_entities (c # cs) =
     (if take 4 (c # cs) = js ''&lt;'' then 0x3C # decode_entities (drop 3 cs)
      else if take 4 (c # cs) = js ''&gt;'' then 0x3E # decode_entities (drop 3 cs)
      else if take 5 (c # cs) = js ''&amp;'' then 0x26 # decode_entities (drop 4 cs)
      else c # decode_entities cs)"

definition text_content_lib :: lib where
  "text_content_lib = ascii_lib\<lparr>stripHtml := (\<lambda>x. decode_entities (stripHtml_tags x))\<rparr>"

subsection \<open>includeEvent and getMastodonStatusStream\<close>

text \<open>
  \<open>acct\<close> is the configured \<^verbatim>\<open>MASTODON_ACCOUNT_ID\<close>. The payload of an event
  whose kind is not \<^verbatim>\<open>update\<close> is not a post; the source does not look at it then,
  because \<^verbatim>\<open>||\<close> stops at its first true operand.
\<close>

definition includeEvent :: "string \<Rightarrow> mastodonEvent \<Rightarrow> bool" where
  "includeEvent acct mastodonEvent =
     (if event mastodonEvent \<noteq> ''update''
         \<or> visibility (payload mastodonEvent) \<noteq> ''public''
         \<or> muted (payload mastodonEvent) = Some True
         \<or> account_id (payload mastodonEvent) \<noteq> acct
         \<or> length (mentions (payload mastodonEvent)) > 0
         \<or> (inReplyToAccountId (payload mastodonEvent) \<noteq> None
            \<and> inReplyToAccountId (payload mastodonEvent) \<noteq> Some acct)
      then False
      else True)"

datatype console_msg =
    Log_status status
  | Log_skipping_non_image
  | Log_posted_and_saved status bskyPost identity
  | Error_result_storage_failed js_error
  | Error_cross_posting js_error

text \<open>
  The generator \<open>getMastodonStatusStream\<close> over the events of the subscription, each
  paired with the world in which its post would be processed. Its output is what the
  consumer sees in order: \<open>Inl\<close> a line written to the console, \<open>Inr\<close> a payload that
  is yielded.
\<close>

fun getMastodonStatusStream ::
  "string \<Rightarrow> ('w \<times> mastodonEvent) list \<Rightarrow> (console_msg + 'w \<times> status) list" where
  "getMastodonStatusStream acct [] = []"
| "getMastodonStatusStream acct ((w, ev) # rest) =
     (if includeEvent acct ev then
        (if list_ex (\<lambda>a. att_type a \<noteq> ''image'') (mediaAttachments (payload ev))
         then Inl Log_skipping_non_image # getMastodonStatusStream acct rest
         else Inr (w, payload ev) # getMastodonStatusStream acct rest)
      else getMastodonStatusStream acct rest)"

subsection \<open>Transloading media\<close>

text \<open>The function mapped over the sources: one download and one upload.\<close>

definition transload_one :: "world \<Rightarrow> jsstring \<Rightarrow> js_error + blobRef" where
  "transload_one W u =
     (case fetch W u of
        Inl e \<Rightarrow> Inl (TransloadingFailed u e)
      | Inr downloadResponse \<Rightarrow>
          if \<not> ok downloadResponse then Inl (TransloadingFailed u DownloadReturnedStatus)
          else
            (case blob downloadResponse of
               Inl e \<Rightarrow> Inl (TransloadingFailed u e)
             | Inr b \<Rightarrow>
                 (case uploadBlob W b of
                    Inl e \<Rightarrow> Inl (TransloadingFailed u e)
                  | Inr uploadResponse \<Rightarrow>
                      if \<not> success uploadResponse
                      then Inl (TransloadingFailed u UploadNotSuccessful)
                      else Inr (data_blob uploadResponse))))"

text \<open>
  \<^verbatim>\<open>Promise.all\<close> over promises that have settled with the results \<open>rs\<close>: every
  promise runs to its end; when all are fulfilled the result is the list of their
  values, in the order of the promises; otherwise it is the error of the promise that
  rejected first in time, which \<open>first\<close> chooses among the rejected ones.
\<close>

definition Promise_all :: "(nat list \<Rightarrow> nat) \<Rightarrow> ('e + 'a) list \<Rightarrow> 'e + 'a list" where
  "Promise_all first rs =
     (let rejected = filter (\<lambda>i. isl (rs ! i)) [0..<length rs] in
      if rejected = [] then Inr (map projr rs)
      else Inl (projl (rs ! (rejected ! (first rejected mod length rejected)))))"

definition transloadMastodonMediaToBsky :: "world \<Rightarrow> jsstring list \<Rightarrow> js_error + blobRef list" where
  "transloadMastodonMediaToBsky W sources =
     Promise_all (rejects_first W) (map (transload_one W) sources)"

definition mastodonMediaToBskyEmbeds :: "world \<Rightarrow> status \<Rightarrow> js_error + embed" where
  "mastodonMediaToBskyEmbeds W mastodonStatus =
     (case transloadMastodonMediaToBsky W (map att_url (mediaAttachments mastodonStatus)) of
        Inl e \<Rightarrow> Inl e
      | Inr blobs \<Rightarrow>
          Inr (Images
            (map (\<lambda>(attachment, b).
                    \<lparr>alt = att_description attachment,
                     image = b,
                     aspectRatio = \<lparr>width = att_width attachment,
                                    height = att_height attachment\<rparr>\<rparr>)
                 (zip (mediaAttachments mastodonStatus) blobs))))"

definition mastodonCardToBskyEmbed :: "world \<Rightarrow> card \<Rightarrow> js_error + embed" where
  "mastodonCardToBskyEmbed W c =
     (let e = \<lparr>ext_uri = card_url c, ext_title = card_title c,
                ext_description = card_description c, ext_blob = None\<rparr>
      in case card_image c of
           None \<Rightarrow> Inr (External e)
         | Some i \<Rightarrow>
             if i = [] then Inr (External e)
             else
               (case transloadMastodonMediaToBsky W [i] of
                  Inl err \<Rightarrow> Inl err
                | Inr blobs \<Rightarrow>
                    (case blobs of
                       [] \<Rightarrow> Inl TypeError
                     | b # _ \<Rightarrow> Inr (External (e\<lparr>ext_blob := Some (original b)\<rparr>)))))"

text \<open>
  What it is for the transload of a source to fail, said of the collaborators: the
  download fails when \<^verbatim>\<open>fetch\<close> rejects, when the response is not \<^verbatim>\<open>ok\<close> or when
  its body cannot be read; the upload fails when, after a download, \<^verbatim>\<open>uploadBlob\<close>
  rejects or its response is not a success.
\<close>

definition download_fails :: "world \<Rightarrow> jsstring \<Rightarrow> bool" where
  "download_fails W u =
     (case fetch W u of
        Inl e \<Rightarrow> True
      | Inr r \<Rightarrow> \<not> ok r \<or> isl (blob r))"

definition upload_fails :: "world \<Rightarrow> jsstring \<Rightarrow> bool" where
  "upload_fails W u =
     (case fetch W u of
        Inl e \<Rightarrow> False
      | Inr r \<Rightarrow>
          ok r \<and>
          (case blob r of
             Inl e \<Rightarrow> False
           | Inr b \<Rightarrow> (case uploadBlob W b of Inl e \<Rightarrow> True | Inr up \<Rightarrow> \<not> success up)))"

subsection \<open>mastodonStatusToBskyPost\<close>

text \<open>
  The store is read with \<^verbatim>\<open>storage.getItem\<close>. A parent that was never stored is
  \<^verbatim>\<open>undefined\<close>, and reading \<^verbatim>\<open>parent.bsky\<close> of it throws a \<open>TypeError\<close>.
  \<^verbatim>\<open>inReplyToId\<close> is tested for truth: \<^verbatim>\<open>null\<close> and the empty string are false.
\<close>

definition mastodonStatusToBskyPost ::
  "lib \<Rightarrow> world \<Rightarrow> store \<Rightarrow> status \<Rightarrow> js_error + bskyPost" where
  "mastodonStatusToBskyPost L W storage mastodonStatus =
     (case reformatText L mastodonStatus of
        Inl e \<Rightarrow> Inl e
      | Inr t \<Rightarrow>
     (case detectFacets W t of
        Inl e \<Rightarrow> Inl e
      | Inr fs \<Rightarrow>
     (let post = \<lparr>post_text = t, facets = fs, langs = [language mastodonStatus],
                  post_createdAt = createdAt mastodonStatus,
                  reply = None, embed = None\<rparr>
      in
     (case
        (case inReplyToId mastodonStatus of
           None \<Rightarrow> Inr post
         | Some k \<Rightarrow>
             if k = [] then Inr post
             else
               (case getItem_error W k of
                  Some e \<Rightarrow> Inl e
                | None \<Rightarrow>
                    (case storage k of
                       None \<Rightarrow> Inl TypeError
                     | Some parent_entry \<Rightarrow>
                         (case bsky parent_entry of
                            None \<Rightarrow> Inr post
                          | Some b \<Rightarrow>
                              Inr (post\<lparr>reply :=
                                Some \<lparr>parent = entry_post b,
                                      root = (case entry_root b of
                                                Some r \<Rightarrow> r
                                              | None \<Rightarrow> entry_post b)\<rparr>\<rparr>)))))
      of
        Inl e \<Rightarrow> Inl e
      | Inr post1 \<Rightarrow>
     (case
        (if length (mediaAttachments mastodonStatus) > 0 then
           (case mastodonMediaToBskyEmbeds W mastodonStatus of
              Inl e \<Rightarrow> Inl e
            | Inr em \<Rightarrow> Inr (post1\<lparr>embed := Some em\<rparr>))
         else
           (case card mastodonStatus of
              Some c \<Rightarrow>
                (case mastodonCardToBskyEmbed W c of
                   Inl e \<Rightarrow> Inl e
                 | Inr em \<Rightarrow> Inr (post1\<lparr>embed := Some em\<rparr>))
            | None \<Rightarrow> Inr post1))
      of
        Inl e \<Rightarrow> Inl e
      | Inr post2 \<Rightarrow>
          (case validateRecord L post2 of
             None \<Rightarrow> Inr post2
           | Some err \<Rightarrow> Inl (FailedToCreateBskyPost err)))))))"

subsection \<open>The ingestion loop\<close>

text \<open>
  The state that the loop changes: the store, the posts published on the destination
  platform, and the console. \<open>writes\<close> is a history of the calls of
  \<^verbatim>\<open>storage.setItem\<close> that succeeded, kept for the statements about the ledger.
\<close>

record state =
  storage :: store
  published :: "bskyPost list"
  console :: "console_msg list"
  writes :: "(string \<times> entry) list"

definition setItem :: "world \<Rightarrow> string \<Rightarrow> entry \<Rightarrow> state \<Rightarrow> js_error + state" where
  "setItem W k v st =
     (case setItem_error W k v of
        Some e \<Rightarrow> Inl e
      | None \<Rightarrow> Inr (st\<lparr>storage := (storage st)(k \<mapsto> v), writes := writes st @ [(k, v)]\<rparr>))"

text \<open>
  The body of the \<^verbatim>\<open>for await\<close> loop for one post. The second component of the
  result is \<open>None\<close> when the body ends and the loop goes on, and the exception when
  one leaves the body: nothing catches it, and the script ends.
\<close>

definition ingestion_step :: "lib \<Rightarrow> world \<Rightarrow> state \<Rightarrow> status \<Rightarrow> state \<times> js_error option" where
  "ingestion_step L W st mastodonStatus =
     (let st1 = st\<lparr>console := console st @ [Log_status mastodonStatus]\<rparr> in
      case
        (case mastodonStatusToBskyPost L W (storage st1) mastodonStatus of
           Inl e \<Rightarrow> Inl e
         | Inr p \<Rightarrow>
             (case agent_post W p of
                Inl e \<Rightarrow> Inl e
              | Inr posted \<Rightarrow> Inr (p, posted)))
      of
        Inr (p, posted) \<Rightarrow>
          (let st2 = st1\<lparr>published := published st1 @ [p]\<rparr> in
           case setItem W (status_id mastodonStatus)
                  \<lparr>bsky = Some \<lparr>entry_post = posted,
                                entry_root = (case reply p of
                                                Some r \<Rightarrow> Some (root r)
                                              | None \<Rightarrow> None)\<rparr>\<rparr> st2 of
             Inr st3 \<Rightarrow>
               (st3\<lparr>console := console st3 @ [Log_posted_and_saved mastodonStatus p posted]\<rparr>,
                None)
           | Inl e \<Rightarrow>
               (st2\<lparr>console := console st2 @ [Error_result_storage_failed e]\<rparr>, None))
      | Inl e \<Rightarrow>
          (case setItem W (status_id mastodonStatus) \<lparr>bsky = None\<rparr> st1 of
             Inr st2 \<Rightarrow> (st2\<lparr>console := console st2 @ [Error_cross_posting e]\<rparr>, None)
           | Inl e' \<Rightarrow> (st1, Some e')))"

text \<open>The \<^verbatim>\<open>for await\<close> loop over what the generator gives.\<close>

fun ingestion_loop ::
  "lib \<Rightarrow> state \<Rightarrow> (console_msg + world \<times> status) list \<Rightarrow> state \<times> js_error option" where
  "ingestion_loop L st [] = (st, None)"
| "ingestion_loop L st (Inl m # rest) =
     ingestion_loop L (st\<lparr>console := console st @ [m]\<rparr>) rest"
| "ingestion_loop L st (Inr (W, s) # rest) =
     (case ingestion_step L W st s of
        (st', Some e) \<Rightarrow> (st', Some e)
      | (st', None) \<Rightarrow> ingestion_loop L st' rest)"

definition main ::
  "lib \<Rightarrow> string \<Rightarrow> state \<Rightarrow> (world \<times> mastodonEvent) list \<Rightarrow> state \<times> js_error option" where
  "main L acct st evs = ingestion_loop L st (getMastodonStatusStream acct evs)"

text \<open>The source post ids of the posts that the loop is given.\<close>

fun yielded_ids :: "(console_msg + world \<times> status) list \<Rightarrow> string list" where
  "yielded_ids [] = []"
| "yielded_ids (Inl m # rest) = yielded_ids rest"
| "yielded_ids (Inr (W, s) # rest) = status_id s # yielded_ids rest"

subsection \<open>Concrete inputs\<close>

text \<open>
  A world in which every collaborator answers with success, the post of the
  end-to-end scenario (\<^verbatim>\<open><p>Hello</p><p>World</p>\<close>, language \<^verbatim>\<open>en\<close>), and the
  state of a run that starts with an empty ledger.
\<close>

definition post_1 :: identity where
  "post_1 = \<lparr>uri = ''at://me/app.bsky.feed.post/1'', cid = ''cid1''\<rparr>"

definition world_ok :: world where
  "world_ok =
     \<lparr>detectFacets = (\<lambda>t. Inr []),
      fetch = (\<lambda>u. Inr \<lparr>ok = True, blob = Inr []\<rparr>),
      uploadBlob =
        (\<lambda>b. Inr \<lparr>success = True, data_blob = \<lparr>ref = ''blob'', original = ''blob''\<rparr>\<rparr>),
      agent_post = (\<lambda>p. Inr post_1),
      getItem_error = (\<lambda>k. None),
      setItem_error = (\<lambda>k v. None),
      rejects_first = (\<lambda>rejected. 0)\<rparr>"

definition hello_status :: status where
  "hello_status =
     \<lparr>status_id = ''1'', account_id = ''me'', visibility = ''public'', muted = Some False,
      mentions = [], inReplyToId = None, inReplyToAccountId = None, language = Some ''en'',
      content = js ''<p>Hello</p><p>World</p>'', url = js ''https://example/1'',
      createdAt = ''2024-01-01T00:00:00.000Z'', mediaAttachments = [], card = None\<rparr>"

definition hello_post :: bskyPost where
  "hello_post =
     \<lparr>post_text = js ''Hello'' @ [0x0A, 0x0A] @ js ''World'', facets = [],
      langs = [Some ''en''], post_createdAt = ''2024-01-01T00:00:00.000Z'',
      reply = None, embed = None\<rparr>"

text \<open>A reply of the account to its own post \<open>1\<close>.\<close>

definition reply_status :: status where
  "reply_status =
     hello_status\<lparr>status_id := ''2'', inReplyToId := Some ''1'',
                  inReplyToAccountId := Some ''me'', content := js ''<p>More</p>'',
                  url := js ''https://example/2''\<rparr>"

definition video :: attachment where
  "video =
     \<lparr>att_type = ''video'', att_url = js ''https://files/1.mp4'', att_description = None,
      att_width = 640, att_height = 480\<rparr>"

definition picture :: attachment where
  "picture =
     \<lparr>att_type = ''image'', att_url = js ''https://files/2.png'',
      att_description = Some ''a picture'', att_width = 640, att_height = 480\<rparr>"

definition empty_state :: state where
  "empty_state = \<lparr>storage = Map.empty, published = [], console = [], writes = []\<rparr>"

text \<open>The post that the reply becomes when post \<open>1\<close> is in the ledger.\<close>

definition reply_post :: bskyPost where
  "reply_post =
     \<lparr>post_text = js ''More'', facets = [], langs = [Some ''en''],
      post_createdAt = ''2024-01-01T00:00:00.000Z'',
      reply = Some \<lparr>parent = post_1, root = post_1\<rparr>, embed = None\<rparr>"

text \<open>A world in which the download of the picture is answered with an error status.\<close>

definition world_no_download :: world where
  "world_no_download =
     world_ok\<lparr>fetch := (\<lambda>u. if u = js ''https://files/2.png''
                              then Inr \<lparr>ok = False, blob = Inr []\<rparr>
                              else Inr \<lparr>ok = True, blob = Inr []\<rparr>)\<rparr>"

text \<open>
  A post of 301 grapheme clusters: the letter \<open>a\<close> and 300 exclamation marks.
\<close>

definition long_status :: status where
  "long_status =
     hello_status\<lparr>status_id := ''2'',
                  content := js ''<p>a'' @ replicate 300 0x21 @ js ''</p>'',
                  url := js ''https://example/2''\<rparr>"

text \<open>
  Worlds in which the destination rejects the post, in which it does so and the
  storage engine rejects every write, and in which only the writes are rejected.
\<close>

definition world_post_rejected :: world where
  "world_post_rejected = world_ok\<lparr>agent_post := (\<lambda>p. Inl (Rejected ''submission''))\<rparr>"

definition world_storage_down :: world where
  "world_storage_down =
     world_ok\<lparr>agent_post := (\<lambda>p. Inl (Rejected ''submission'')),
              setItem_error := (\<lambda>k v. Some (Rejected ''storage''))\<rparr>"

definition world_write_fails :: world where
  "world_write_fails = world_ok\<lparr>setItem_error := (\<lambda>k v. Some (Rejected ''storage''))\<rparr>"

text \<open>A run on two posts, and the event that carries the first of them.\<close>

definition two_posts :: "(console_msg + world \<times> status) list" where
  "two_posts = [Inr (world_ok, hello_status), Inr (world_ok, reply_status)]"

definition hello_event :: mastodonEvent where
  "hello_event = \<lparr>event = ''update'', payload = hello_status\<rparr>"

text \<open>
  A post with two pictures, the image of the embed made of a picture, and a world in
  which every upload is answered without success.
\<close>

definition two_pictures :: status where
  "two_pictures =
     hello_status\<lparr>mediaAttachments :=
       [picture\<lparr>att_url := js ''https://files/1.png''\<rparr>, picture]\<rparr>"

definition world_no_upload :: world where
  "world_no_upload =
     world_ok\<lparr>uploadBlob := (\<lambda>b. Inr \<lparr>success = False, data_blob = \<lparr>ref = [], original = []\<rparr>\<rparr>)\<rparr>"

definition picture_1_image :: embed_image where
  "picture_1_image =
     \<lparr>alt = Some ''a picture'', image = \<lparr>ref = ''blob'', original = ''blob''\<rparr>,
      aspectRatio = \<lparr>width = 640, height = 480\<rparr>\<rparr>"


definition breaks_status :: status where
  "breaks_status =
     hello_status\<lparr>content := js ''<p>a<br/>b<br />c</p><p>d</p><p>e</p>''\<rparr>"

lemmas string_defs = js_def match_br_def match_str_def is_js_space_def

lemmas ascii_defs = ascii_lib_def stripHtml_tags_def wordSegmenter_ascii_def

section \<open>Properties\<close>

subsection \<open>The event filter\<close>

text \<open>
  The claim C3 as it is written fails: \<open>includeEvent\<close> does not look at the media
  attachments, and it admits an event of the account whose post carries a video.
\<close>

theorem includeEvent_admits_non_image:
  "list_ex (\<lambda>a. att_type a \<noteq> ''image'')
     (mediaAttachments (hello_status\<lparr>mediaAttachments := [video]\<rparr>))
   \<and> includeEvent ''me''
       \<lparr>event = ''update'', payload = hello_status\<lparr>mediaAttachments := [video]\<rparr>\<rparr>"
  by (simp add: includeEvent_def hello_status_def video_def)

text \<open>
  C3, amended: an event whose payload has a media attachment that is not an image is
  rejected by the stream \<open>getMastodonStatusStream\<close>, in a test of its own made after
  \<open>includeEvent\<close> has admitted the event, and that test writes a line to the console.
  The payload is not yielded, and the run goes on with the next event: nothing is
  posted and nothing is written to the ledger for it.
\<close>

theorem non_image_event_not_yielded:
  assumes "list_ex (\<lambda>a. att_type a \<noteq> ''image'') (mediaAttachments (payload ev))"
  shows "getMastodonStatusStream acct ((w, ev) # rest) =
           (if includeEvent acct ev then [Inl Log_skipping_non_image] else [])
           @ getMastodonStatusStream acct rest
         \<and> main L acct st ((W, ev) # rest) =
             main L acct
               (if includeEvent acct ev
                then st\<lparr>console := console st @ [Log_skipping_non_image]\<rparr> else st) rest"
  using assms by (simp add: main_def)

theorem non_image_event_not_yielded_witness:
  "getMastodonStatusStream ''me''
     [(world_ok, \<lparr>event = ''update'', payload = hello_status\<lparr>mediaAttachments := [video]\<rparr>\<rparr>)]
   = [Inl Log_skipping_non_image]"
proof -
  let ?ev = "\<lparr>event = ''update'', payload = hello_status\<lparr>mediaAttachments := [video]\<rparr>\<rparr>"
  have h: "list_ex (\<lambda>a. att_type a \<noteq> ''image'') (mediaAttachments (payload ?ev))"
    by (simp add: video_def)
  have i: "includeEvent ''me'' ?ev"
    by (simp add: includeEvent_def hello_status_def)
  from non_image_event_not_yielded [OF h, of "''me''" world_ok "[]" ascii_lib empty_state world_ok]
  have "getMastodonStatusStream ''me'' [(world_ok, ?ev)] =
          (if includeEvent ''me'' ?ev then [Inl Log_skipping_non_image] else [])
          @ getMastodonStatusStream ''me'' []"
    by (rule conjunct1)
  with i show ?thesis by simp
qed

text \<open>What the stream yields has image attachments only.\<close>

lemma stream_yields_images_only:
  "Inr (w, p) \<in> set (getMastodonStatusStream acct evs) \<Longrightarrow>
   \<not> list_ex (\<lambda>a. att_type a \<noteq> ''image'') (mediaAttachments p)"
  by (induction evs) (auto split: if_splits)

subsection \<open>The text reformatter\<close>

text \<open>
  The first replacement turns every line-break element of a content into a newline and
  leaves the rest as it is; the second turns every paragraph boundary into two
  newlines. A pattern cannot match across the end of a chunk, since a break element
  and a newline begin with a code unit that the pattern does not have at that place.
\<close>

lemma replaceAll_by_copy:
  "(\<And>i. i < length xs \<Longrightarrow> m (drop i xs @ ys) = None) \<Longrightarrow>
   replaceAll_by m r (xs @ ys) = xs @ replaceAll_by m r ys"
proof (induction xs)
  case Nil
  then show ?case by simp
next
  case (Cons c xs)
  from Cons.prems [of 0] have "m (c # xs @ ys) = None" by simp
  moreover have "replaceAll_by m r (xs @ ys) = xs @ replaceAll_by m r ys"
  proof (rule Cons.IH)
    fix i assume "i < length xs"
    with Cons.prems [of "Suc i"] show "m (drop i xs @ ys) = None" by simp
  qed
  ultimately show ?case by simp
qed

lemma list_cases6:
  obtains "xs = []" | a where "xs = [a]" | a b where "xs = [a, b]" | a b c where "xs = [a, b, c]"
  | a b c d where "xs = [a, b, c, d]" | a b c d e where "xs = [a, b, c, d, e]"
  | a b c d e f ys where "xs = a # b # c # d # e # f # ys"
  by (metis list.exhaust)

lemma match_br_straddle:
  assumes "match_br u = None" and "u \<noteq> []" and "ys = [] \<or> hd ys = 0x3C"
  shows "match_br (u @ ys) = None"
proof (cases "ys = []")
  case True
  with assms show ?thesis by simp
next
  case False
  with assms(3) obtain zs where ys: "ys = 0x3C # zs" by (cases ys) auto
  show ?thesis
    using assms(1,2) unfolding ys
    by (cases u rule: list_cases6)
      (auto simp: match_br_def js_def is_js_space_def split: if_splits)
qed

lemma list_cases7:
  obtains "xs = []" | a where "xs = [a]" | a b where "xs = [a, b]" | a b c where "xs = [a, b, c]"
  | a b c d where "xs = [a, b, c, d]" | a b c d e where "xs = [a, b, c, d, e]"
  | a b c d e f where "xs = [a, b, c, d, e, f]"
  | a b c d e f g ys where "xs = a # b # c # d # e # f # g # ys"
  by (metis list.exhaust)

lemma match_p_straddle:
  assumes "match_str (js ''</p><p>'') u = None" and "u \<noteq> []"
    and "ys = [] \<or> hd ys = 0x0A \<or> (\<exists>zs. ys = js ''</p><p>'' @ zs)"
  shows "match_str (js ''</p><p>'') (u @ ys) = None"
proof -
  from assms(3) consider "ys = []" | zs where "ys = 0x0A # zs"
    | zs where "ys = 0x3C # 0x2F # zs"
    by (cases ys) (auto simp: js_def)
  then show ?thesis
  proof cases
    case 1
    with assms show ?thesis by simp
  next
    case 2
    show ?thesis
      using assms(1,2) unfolding 2
      by (cases u rule: list_cases7) (auto simp: match_str_def js_def split: if_splits)
  next
    case 3
    show ?thesis
      using assms(1,2) unfolding 3
      by (cases u rule: list_cases7) (auto simp: match_str_def js_def split: if_splits)
  qed
qed

lemma no_break_inD:
  "no_break_in t \<Longrightarrow> i < length t \<Longrightarrow>
   match_br (drop i t) = None \<and> match_str (js ''</p><p>'') (drop i t) = None"
  by (simp add: no_break_in_def list_all_iff)

lemma tag_of_head: "\<exists>zs. tag_of sep = 0x3C # zs"
  by (cases sep rule: tag_of.cases) (simp_all add: js_def)

lemma join_tag_head: "f = tag_of \<Longrightarrow> hd (f sep @ zs) = 0x3C"
  using tag_of_head [of sep] by auto

lemma first_pass_tag:
  "separator_ok sep \<Longrightarrow>
   replaceAll_by match_br [0x0A] (tag_of sep @ ys)
     = line_breaks_replaced sep @ replaceAll_by match_br [0x0A] ys"
  by (cases sep rule: tag_of.cases)
    (simp_all add: match_br_def js_def is_js_space_def)

lemma first_pass:
  "no_break_in t \<Longrightarrow> list_all (\<lambda>(sep, t'). separator_ok sep \<and> no_break_in t') ps \<Longrightarrow>
   replaceAll_by match_br [0x0A] (join_with tag_of t ps) = join_with line_breaks_replaced t ps"
proof (induction ps arbitrary: t)
  case Nil
  have "replaceAll_by match_br [0x0A] (t @ []) = t @ replaceAll_by match_br [0x0A] []"
  proof (rule replaceAll_by_copy)
    fix i assume "i < length t"
    with Nil.prems(1) show "match_br (drop i t @ []) = None" by (simp add: no_break_inD)
  qed
  then show ?case by simp
next
  case (Cons p ps)
  obtain sep t' where p: "p = (sep, t')" by (cases p)
  from Cons.prems(2) p have ok: "separator_ok sep" and t': "no_break_in t'"
    and ps: "list_all (\<lambda>(sep, t'). separator_ok sep \<and> no_break_in t') ps" by simp_all
  let ?ys = "tag_of sep @ join_with tag_of t' ps"
  have "replaceAll_by match_br [0x0A] (t @ ?ys) = t @ replaceAll_by match_br [0x0A] ?ys"
  proof (rule replaceAll_by_copy)
    fix i assume i: "i < length t"
    with Cons.prems(1) have "match_br (drop i t) = None" by (simp add: no_break_inD)
    moreover from i have "drop i t \<noteq> []" by simp
    moreover have "hd ?ys = 0x3C" using tag_of_head [of sep] by auto
    ultimately show "match_br (drop i t @ ?ys) = None" by (intro match_br_straddle) simp_all
  qed
  also have "replaceAll_by match_br [0x0A] ?ys
             = line_breaks_replaced sep @ replaceAll_by match_br [0x0A] (join_with tag_of t' ps)"
    using ok by (rule first_pass_tag)
  also have "replaceAll_by match_br [0x0A] (join_with tag_of t' ps)
             = join_with line_breaks_replaced t' ps"
    using t' ps by (rule Cons.IH)
  finally show ?case by (simp add: p)
qed

lemma second_pass_sep:
  "replaceAll_by (match_str (js ''</p><p>'')) [0x0A, 0x0A] (line_breaks_replaced sep @ ys)
     = newline_of sep @ replaceAll_by (match_str (js ''</p><p>'')) [0x0A, 0x0A] ys"
  by (cases sep) (simp_all add: match_str_def js_def)

lemma line_breaks_replaced_head:
  "hd (line_breaks_replaced sep @ zs) = 0x0A \<or> (\<exists>ws. line_breaks_replaced sep @ zs = js ''</p><p>'' @ ws)"
  by (cases sep) simp_all

lemma second_pass:
  "no_break_in t \<Longrightarrow> list_all (\<lambda>(sep, t'). separator_ok sep \<and> no_break_in t') ps \<Longrightarrow>
   replaceAll_by (match_str (js ''</p><p>'')) [0x0A, 0x0A] (join_with line_breaks_replaced t ps)
     = join_with newline_of t ps"
proof (induction ps arbitrary: t)
  case Nil
  have "replaceAll_by (match_str (js ''</p><p>'')) [0x0A, 0x0A] (t @ [])
        = t @ replaceAll_by (match_str (js ''</p><p>'')) [0x0A, 0x0A] []"
  proof (rule replaceAll_by_copy)
    fix i assume "i < length t"
    with Nil.prems(1) show "match_str (js ''</p><p>'') (drop i t @ []) = None"
      by (simp add: no_break_inD)
  qed
  then show ?case by simp
next
  case (Cons p ps)
  obtain sep t' where p: "p = (sep, t')" by (cases p)
  from Cons.prems(2) p have t': "no_break_in t'"
    and ps: "list_all (\<lambda>(sep, t'). separator_ok sep \<and> no_break_in t') ps" by simp_all
  let ?m = "match_str (js ''</p><p>'')"
  let ?ys = "line_breaks_replaced sep @ join_with line_breaks_replaced t' ps"
  have "replaceAll_by ?m [0x0A, 0x0A] (t @ ?ys) = t @ replaceAll_by ?m [0x0A, 0x0A] ?ys"
  proof (rule replaceAll_by_copy)
    fix i assume i: "i < length t"
    with Cons.prems(1) have "?m (drop i t) = None" by (simp add: no_break_inD)
    moreover from i have "drop i t \<noteq> []" by simp
    moreover have "?ys = [] \<or> hd ?ys = 0x0A \<or> (\<exists>zs. ?ys = js ''</p><p>'' @ zs)"
      using line_breaks_replaced_head [of sep] by blast
    ultimately show "?m (drop i t @ ?ys) = None" by (rule match_p_straddle)
  qed
  also have "replaceAll_by ?m [0x0A, 0x0A] ?ys
             = newline_of sep @ replaceAll_by ?m [0x0A, 0x0A] (join_with line_breaks_replaced t' ps)"
    by (rule second_pass_sep)
  also have "replaceAll_by ?m [0x0A, 0x0A] (join_with line_breaks_replaced t' ps)
             = join_with newline_of t' ps"
    using t' ps by (rule Cons.IH)
  finally show ?case by (simp add: p)
qed

lemma plainText_pieces:
  "pieces_ok t ps \<Longrightarrow> plainText L (join_with tag_of t ps) = stripHtml L (join_with newline_of t ps)"
  by (simp add: plainText_def pieces_ok_def first_pass second_pass)


text \<open>Every content is made of chunks and break elements.\<close>

lemma match_br_Some:
  "match_br xs = Some n \<Longrightarrow>
   (n = 5 \<and> take 5 xs = js ''<br/>'' \<and> length xs \<ge> 5)
   \<or> (n = 6 \<and> is_js_space (xs ! 3) \<and> take 6 xs = js ''<br'' @ [xs ! 3] @ js ''/>'' \<and> length xs \<ge> 6)"
  by (cases xs rule: list_cases6)
    (auto simp: match_br_def js_def split: if_splits list.splits)

lemma match_p_Some:
  "match_str (js ''</p><p>'') xs = Some n \<Longrightarrow> n = 7 \<and> take 7 xs = js ''</p><p>'' \<and> length xs \<ge> 7"
  by (cases xs rule: list_cases7) (auto simp: match_str_def js_def split: if_splits)

lemma pieces_of_join:
  "join_with tag_of (fst (pieces_of c)) (snd (pieces_of c)) = c"
proof (induction c rule: pieces_of.induct)
  case 1
  then show ?case by simp
next
  case (2 c cs)
  show ?case
  proof (cases "match_br (c # cs)")
    case (Some n)
    from match_br_Some [OF Some] have t: "tag_of (LineBreak (if n = 6 then Some (cs ! 2) else None)) = take n (c # cs)"
      and n: "0 < n" "n \<le> length (c # cs)"
      by (auto simp: js_def)
    from "2.IH"(5) [OF Some] have "join_with tag_of (fst (pieces_of (drop (n - 1) cs))) (snd (pieces_of (drop (n - 1) cs))) = drop (n - 1) cs" .
    moreover from n have "drop (n - 1) cs = drop n (c # cs)" by (cases n) simp_all
    ultimately show ?thesis using Some t by simp
  next
    case None
    show ?thesis
    proof (cases "match_str (js ''</p><p>'') (c # cs)")
      case (Some n)
      from match_p_Some [OF Some] have t: "tag_of ParagraphBoundary = take n (c # cs)"
        and n: "0 < n" "n \<le> length (c # cs)" by auto
      from "2.IH"(3) [OF None Some] have "join_with tag_of (fst (pieces_of (drop (n - 1) cs))) (snd (pieces_of (drop (n - 1) cs))) = drop (n - 1) cs" .
      moreover from n have "drop (n - 1) cs = drop n (c # cs)" by (cases n) simp_all
      ultimately show ?thesis using Some None t by simp
    next
      case N2: None
      from "2.IH"(1) [OF None N2] have "join_with tag_of (fst (pieces_of cs)) (snd (pieces_of cs)) = cs" .
      then have "join_with tag_of (c # fst (pieces_of cs)) (snd (pieces_of cs)) = c # cs"
        by (cases "snd (pieces_of cs)") auto
      with None N2 show ?thesis by simp
    qed
  qed
qed


lemma match_br_mono: "match_br (u @ ys) = None \<Longrightarrow> match_br u = None"
  by (cases u rule: list_cases6)
    (auto simp: match_br_def js_def split: if_splits list.splits)

lemma match_p_mono:
  "match_str (js ''</p><p>'') (u @ ys) = None \<Longrightarrow> match_str (js ''</p><p>'') u = None"
  by (cases u rule: list_cases7) (auto simp: match_str_def js_def split: if_splits)

lemma no_break_in_Nil: "no_break_in []"
  by (simp add: no_break_in_def)

lemma no_break_in_iff:
  "no_break_in t \<longleftrightarrow>
     (\<forall>i < length t. match_br (drop i t) = None \<and> match_str (js ''</p><p>'') (drop i t) = None)"
  by (auto simp: no_break_in_def list_all_iff)

lemma no_break_in_Cons:
  "no_break_in (c # t) \<longleftrightarrow>
     match_br (c # t) = None \<and> match_str (js ''</p><p>'') (c # t) = None \<and> no_break_in t"
proof -
  have "(\<forall>i < Suc (length t). P i) \<longleftrightarrow> P 0 \<and> (\<forall>i < length t. P (Suc i))" for P
    by (metis less_Suc_eq_0_disj)
  from this [of "\<lambda>i. match_br (drop i (c # t)) = None
                    \<and> match_str (js ''</p><p>'') (drop i (c # t)) = None"]
  show ?thesis
    unfolding no_break_in_iff by simp
qed

lemma join_with_prefix: "\<exists>rest. join_with f t ps = t @ rest"
  by (cases ps) auto

lemma pieces_of_ok: "pieces_ok (fst (pieces_of c)) (snd (pieces_of c))"
proof (induction c rule: pieces_of.induct)
  case 1
  then show ?case by (simp add: pieces_ok_def no_break_in_Nil)
next
  case (2 c cs)
  show ?case
  proof (cases "match_br (c # cs)")
    case (Some n)
    from match_br_Some [OF Some]
    have "separator_ok (LineBreak (if n = 6 then Some (cs ! 2) else None))" by auto
    with "2.IH"(5) [OF Some] Some show ?thesis
      by (simp add: pieces_ok_def no_break_in_Nil)
  next
    case None
    show ?thesis
    proof (cases "match_str (js ''</p><p>'') (c # cs)")
      case (Some n)
      with "2.IH"(3) [OF None Some] None show ?thesis
        by (simp add: pieces_ok_def no_break_in_Nil)
    next
      case N2: None
      obtain rest where "join_with tag_of (fst (pieces_of cs)) (snd (pieces_of cs))
                         = fst (pieces_of cs) @ rest"
        using join_with_prefix by blast
      then have cs: "c # cs = (c # fst (pieces_of cs)) @ rest"
        by (simp add: pieces_of_join)
      from None have "match_br (c # fst (pieces_of cs)) = None"
        unfolding cs by (rule match_br_mono)
      moreover from N2 have "match_str (js ''</p><p>'') (c # fst (pieces_of cs)) = None"
        unfolding cs by (rule match_p_mono)
      ultimately show ?thesis
        using "2.IH"(1) [OF None N2] None N2
        by (simp add: pieces_ok_def no_break_in_Cons)
    qed
  qed
qed

text \<open>
  C9: every content is made of chunks separated by line-break elements and paragraph
  boundaries; and when the text made of the same chunks, with a newline in place of
  every line-break element and two newlines in place of every paragraph boundary, and
  then stripped of its remaining tags, counts at most 300 grapheme clusters,
  \<open>reformatText\<close> returns that text.
\<close>

theorem reformatText_short_unchanged:
  "(\<exists>t' ps'. content s = join_with tag_of t' ps' \<and> pieces_ok t' ps')
   \<and> (content s = join_with tag_of t ps \<and> pieces_ok t ps
        \<and> countGraphemes L (stripHtml L (join_with newline_of t ps)) \<le> 300
      \<longrightarrow> reformatText L s = Inr (stripHtml L (join_with newline_of t ps)))"
proof (intro conjI impI)
  show "\<exists>t' ps'. content s = join_with tag_of t' ps' \<and> pieces_ok t' ps'"
    using pieces_of_join [of "content s"] pieces_of_ok [of "content s"] by metis
next
  assume "content s = join_with tag_of t ps \<and> pieces_ok t ps
        \<and> countGraphemes L (stripHtml L (join_with newline_of t ps)) \<le> 300"
  then show "reformatText L s = Inr (stripHtml L (join_with newline_of t ps))"
    by (simp add: reformatText_def plainText_pieces)
qed

theorem reformatText_short_unchanged_witness:
  "reformatText ascii_lib breaks_status
   = Inr (js ''a'' @ [0x0A] @ js ''b'' @ [0x0A] @ js ''c'' @ [0x0A, 0x0A] @ js ''d''
          @ [0x0A, 0x0A] @ js ''e'')"
proof -
  let ?t = "js ''<p>a''"
  let ?ps = "[(LineBreak None, js ''b''), (LineBreak (Some 0x20), js ''c''),
              (ParagraphBoundary, js ''d''), (ParagraphBoundary, js ''e</p>'')]"
  have c: "content breaks_status = join_with tag_of ?t ?ps"
    by (simp add: breaks_status_def js_def)
  have ok: "pieces_ok ?t ?ps"
    by (simp add: pieces_ok_def no_break_in_Cons no_break_in_Nil string_defs)
  have t: "stripHtml ascii_lib (join_with newline_of ?t ?ps)
           = js ''a'' @ [0x0A] @ js ''b'' @ [0x0A] @ js ''c'' @ [0x0A, 0x0A] @ js ''d''
             @ [0x0A, 0x0A] @ js ''e''"
    by (simp add: string_defs ascii_defs)
  have h: "countGraphemes ascii_lib (stripHtml ascii_lib (join_with newline_of ?t ?ps)) \<le> 300"
    unfolding t by (simp add: ascii_lib_def js_def)
  from reformatText_short_unchanged [THEN conjunct2, rule_format, OF conjI [OF c conjI [OF ok h]]]
  show ?thesis unfolding t .
qed

text \<open>\<open>reformatText\<close> on the concrete posts.\<close>

lemma reformat_hello: "reformatText ascii_lib hello_status = Inr (js ''Hello'' @ [0x0A, 0x0A] @ js ''World'')"
  by (simp add: reformatText_def plainText_def hello_status_def string_defs ascii_defs)

lemma reformat_reply: "reformatText ascii_lib reply_status = Inr (js ''More'')"
  by (simp add: reformatText_def plainText_def reply_status_def hello_status_def string_defs ascii_defs)

text \<open>Texts without \<open><\<close>: the replacements and the stripper for ASCII leave them alone.\<close>

lemma replaceAll_by_no_match:
  assumes "\<And>c cs. c \<noteq> x \<Longrightarrow> m (c # cs) = None"
  shows "x \<notin> set xs \<Longrightarrow> replaceAll_by m r (xs @ ys) = xs @ replaceAll_by m r ys"
  by (induction xs) (auto simp: assms)

lemma match_br_head: "c \<noteq> 0x3C \<Longrightarrow> match_br (c # cs) = None"
  by (simp add: match_br_def js_def)

lemma match_p_head: "c \<noteq> 0x3C \<Longrightarrow> match_str (js ''</p><p>'') (c # cs) = None"
  by (auto simp add: match_str_def js_def)

lemma strip_tags_no_lt: "0x3C \<notin> set (stripHtml_tags_from b xs)"
  by (induction xs arbitrary: b) auto

lemma strip_tags_text:
  "0x3C \<notin> set xs \<Longrightarrow> stripHtml_tags_from False (xs @ ys) = xs @ stripHtml_tags_from False ys"
  by (induction xs) auto





text \<open>Both libraries of this file leave such texts unchanged.\<close>

lemma decode_entities_no_amp: "0x26 \<notin> set t \<Longrightarrow> decode_entities t = t"
  by (induction t rule: decode_entities.induct) (auto simp: js_def)

lemma text_content_lib_contract:
  "markup_free x \<Longrightarrow> stripHtml text_content_lib x = x"
  using strip_tags_text [of x "[]"]
  by (simp add: markup_free_def text_content_lib_def stripHtml_tags_def decode_entities_no_amp)



lemma countGraphemes_ascii_length:
  "0x0D \<notin> set xs \<Longrightarrow> countGraphemes_ascii xs = length xs"
  by (induction xs rule: countGraphemes_ascii.induct) auto

lemma segment_ascii_no_letters:
  "\<forall>c \<in> set xs. \<not> is_ascii_letter c \<Longrightarrow>
   segment_ascii_from [] xs = map (\<lambda>c. \<lparr>segment = [c], isWordLike = False\<rparr>) xs"
  by (induction xs) auto

lemma segment_ascii_word_first:
  "xs \<noteq> [] \<Longrightarrow> \<forall>c \<in> set xs. \<not> is_ascii_letter c \<Longrightarrow> w \<noteq> [] \<Longrightarrow>
   segment_ascii_from w xs =
     \<lparr>segment = w, isWordLike = True\<rparr> # map (\<lambda>c. \<lparr>segment = [c], isWordLike = False\<rparr>) xs"
  by (cases xs) (simp_all add: segment_ascii_no_letters)

lemma loop_no_words:
  "\<forall>s \<in> set segs. \<not> isWordLike s \<Longrightarrow> reformatText_loop cg m u snip add segs = None"
  by (induction segs arbitrary: add) (auto simp: Let_def)

lemma long_text:
  "plainText ascii_lib (content long_status) = 0x61 # replicate 300 0x21"
proof -
  have c: "content long_status = js ''<p>a'' @ replicate 300 0x21 @ js ''</p>''"
    by (simp add: long_status_def)
  have n: "(0x3C::code_unit) \<notin> set (replicate 300 0x21)" by simp
  have 1: "replaceAll_by match_br [0x0A] (content long_status) = content long_status"
    unfolding c
    using replaceAll_by_no_match [of "0x3C" match_br "replicate 300 0x21" "[0x0A]" "js ''</p>''", OF match_br_head n]
    by (simp add: string_defs)
  have 2: "replaceAll_by (match_str (js ''</p><p>'')) [0x0A, 0x0A] (content long_status) = content long_status"
    unfolding c
    using replaceAll_by_no_match [of "0x3C" "match_str (js ''</p><p>'')" "replicate 300 0x21" "[0x0A, 0x0A]" "js ''</p>''", OF match_p_head n]
    by (simp add: string_defs)
  have 3: "stripHtml_tags (content long_status) = 0x61 # replicate 300 0x21"
    unfolding c stripHtml_tags_def
    using strip_tags_text [OF n, of "js ''</p>''"]
    by (simp add: js_def)
  show ?thesis
    by (simp add: plainText_def 1 2) (simp add: ascii_lib_def 3)
qed

text \<open>
  C1 fails on the code. The text of \<open>long_status\<close> counts 301 grapheme clusters. Its
  only word-like segment is the letter \<open>a\<close>, with which the snippet counts 1 and
  stays under the budget of 281, and the 300 segments behind it are not word-like, so
  the loop runs to its end and \<open>reformatText\<close> returns the whole text: 301 grapheme
  clusters, and no URL at its end.
\<close>

theorem reformatText_returns_overlong_text:
  "countGraphemes ascii_lib (plainText ascii_lib (content long_status)) = 301
   \<and> reformatText ascii_lib long_status = Inr (js ''a'' @ replicate 300 0x21)
   \<and> countGraphemes ascii_lib (js ''a'' @ replicate 300 0x21) = 301"
proof -
  have g: "countGraphemes_ascii (0x61 # replicate 300 0x21) = 301"
    using countGraphemes_ascii_length [of "0x61 # replicate 300 0x21"] by simp
  have s: "segment_ascii_from [] (0x61 # replicate 300 0x21)
           = \<lparr>segment = [0x61], isWordLike = True\<rparr>
             # map (\<lambda>c. \<lparr>segment = [c], isWordLike = False\<rparr>) (replicate 300 0x21)"
    using segment_ascii_word_first [of "replicate 300 0x21" "[0x61]"]
    by (simp add: is_ascii_letter_def)
  have l: "reformatText_loop countGraphemes_ascii (300 - int (length (url long_status)) - 2)
             (url long_status) [] [] (segment_ascii_from [] (0x61 # replicate 300 0x21)) = None"
    unfolding s
    by (simp add: long_status_def js_def loop_no_words)
  show ?thesis
    unfolding reformatText_def long_text
    using g l by (simp add: ascii_lib_def wordSegmenter_ascii_def long_status_def hello_status_def js_def)
qed

text \<open>
  What holds where the loop does return: the result is a snippet, the ellipsis, a space
  and the URL, and the snippet is empty or is made of the first \<open>k\<close> segments of the
  text, the last of them word-like, and counts less than the budget.
\<close>

lemma reformatText_loop_Some:
  "reformatText_loop cg m u snip add segs = Some r \<Longrightarrow>
   \<exists>pre. r = pre @ [0x2026, 0x20] @ u
     \<and> (pre = snip
        \<or> (\<exists>k. 0 < k \<and> k \<le> length segs \<and> isWordLike (segs ! (k - 1))
               \<and> pre = snip @ add @ concat (map segment (take k segs))
               \<and> int (cg pre) < m))"
proof (induction segs arbitrary: snip add)
  case Nil
  then show ?case by simp
next
  case (Cons s rest)
  show ?case
  proof (cases "isWordLike s")
    case False
    with Cons.prems have "reformatText_loop cg m u snip (add @ segment s) rest = Some r"
      by (simp add: Let_def)
    from Cons.IH [OF this] obtain pre where r: "r = pre @ [0x2026, 0x20] @ u"
      and d: "pre = snip
        \<or> (\<exists>k. 0 < k \<and> k \<le> length rest \<and> isWordLike (rest ! (k - 1))
               \<and> pre = snip @ (add @ segment s) @ concat (map segment (take k rest))
               \<and> int (cg pre) < m)" by blast
    from d show ?thesis
    proof
      assume "pre = snip" with r show ?thesis by blast
    next
      assume "\<exists>k. 0 < k \<and> k \<le> length rest \<and> isWordLike (rest ! (k - 1))
               \<and> pre = snip @ (add @ segment s) @ concat (map segment (take k rest))
               \<and> int (cg pre) < m"
      then obtain k where k: "0 < k" "k \<le> length rest" "isWordLike (rest ! (k - 1))"
        "pre = snip @ (add @ segment s) @ concat (map segment (take k rest))" "int (cg pre) < m"
        by blast
      then have "0 < Suc k \<and> Suc k \<le> length (s # rest) \<and> isWordLike ((s # rest) ! (Suc k - 1))
               \<and> pre = snip @ add @ concat (map segment (take (Suc k) (s # rest)))
               \<and> int (cg pre) < m"
        by (cases k) simp_all
      with r show ?thesis by blast
    qed
  next
    case True
    show ?thesis
    proof (cases "int (cg (snip @ add @ segment s)) \<ge> m")
      case True
      with \<open>isWordLike s\<close> Cons.prems show ?thesis by (auto simp: Let_def)
    next
      case False
      with \<open>isWordLike s\<close> Cons.prems
      have "reformatText_loop cg m u (snip @ add @ segment s) [] rest = Some r"
        by (simp add: Let_def)
      from Cons.IH [OF this] obtain pre where r: "r = pre @ [0x2026, 0x20] @ u"
        and d: "pre = snip @ add @ segment s
          \<or> (\<exists>k. 0 < k \<and> k \<le> length rest \<and> isWordLike (rest ! (k - 1))
               \<and> pre = (snip @ add @ segment s) @ [] @ concat (map segment (take k rest))
               \<and> int (cg pre) < m)" by blast
      from d show ?thesis
      proof
        assume p: "pre = snip @ add @ segment s"
        with False \<open>isWordLike s\<close>
        have "0 < Suc 0 \<and> Suc 0 \<le> length (s # rest) \<and> isWordLike ((s # rest) ! (Suc 0 - 1))
               \<and> pre = snip @ add @ concat (map segment (take (Suc 0) (s # rest)))
               \<and> int (cg pre) < m" by simp
        with r show ?thesis by blast
      next
        assume "\<exists>k. 0 < k \<and> k \<le> length rest \<and> isWordLike (rest ! (k - 1))
               \<and> pre = (snip @ add @ segment s) @ [] @ concat (map segment (take k rest))
               \<and> int (cg pre) < m"
        then obtain k where k: "0 < k" "k \<le> length rest" "isWordLike (rest ! (k - 1))"
          "pre = (snip @ add @ segment s) @ [] @ concat (map segment (take k rest))" "int (cg pre) < m"
          by blast
        then have "0 < Suc k \<and> Suc k \<le> length (s # rest) \<and> isWordLike ((s # rest) ! (Suc k - 1))
               \<and> pre = snip @ add @ concat (map segment (take (Suc k) (s # rest)))
               \<and> int (cg pre) < m"
          by (cases k) simp_all
        with r show ?thesis by blast
      qed
    qed
  qed
qed

lemma reformatText_truncated:
  assumes "reformatText L s = Inr r" and "r \<noteq> plainText L (content s)"
  shows "\<exists>pre. r = pre @ [0x2026, 0x20] @ url s
     \<and> (pre = []
        \<or> (\<exists>segments k. wordSegmenter L (language s) = Inr segments
               \<and> 0 < k \<and> k \<le> length (segments (plainText L (content s)))
               \<and> isWordLike (segments (plainText L (content s)) ! (k - 1))
               \<and> pre = concat (map segment (take k (segments (plainText L (content s)))))
               \<and> int (countGraphemes L pre) < 300 - int (length (url s)) - 2))"
proof -
  from assms obtain segments where
    w: "wordSegmenter L (language s) = Inr segments"
    and l: "reformatText_loop (countGraphemes L) (300 - int (length (url s)) - 2) (url s) [] []
              (segments (plainText L (content s))) = Some r"
    by (auto simp: reformatText_def Let_def split: if_splits sum.splits option.splits)
  from reformatText_loop_Some [OF l] w show ?thesis by auto
qed

subsection \<open>The media transloader\<close>

lemma Promise_all_fulfilled:
  "Promise_all f rs = Inr vs \<longleftrightarrow> (\<forall>r \<in> set rs. \<not> isl r) \<and> vs = map projr rs"
proof -
  have "filter (\<lambda>i. isl (rs ! i)) [0..<length rs] = [] \<longleftrightarrow> (\<forall>r \<in> set rs. \<not> isl r)"
    unfolding filter_empty_conv by (metis atLeastLessThan_iff in_set_conv_nth set_upt zero_le)
  then show ?thesis
    by (auto simp: Promise_all_def Let_def)
qed

lemma Promise_all_rejected:
  assumes "r \<in> set rs" and "isl r"
  shows "\<exists>i < length rs. isl (rs ! i) \<and> Promise_all f rs = Inl (projl (rs ! i))"
proof -
  let ?rej = "filter (\<lambda>i. isl (rs ! i)) [0..<length rs]"
  from assms obtain j where j: "j < length rs" "isl (rs ! j)"
    by (auto simp: in_set_conv_nth)
  then have "j \<in> set ?rej" by simp
  then have ne: "?rej \<noteq> []" by (metis empty_iff empty_set)
  then have "f ?rej mod length ?rej < length ?rej" by simp
  then have "?rej ! (f ?rej mod length ?rej) \<in> set ?rej" by (rule nth_mem)
  then have "?rej ! (f ?rej mod length ?rej) < length rs"
    and "isl (rs ! (?rej ! (f ?rej mod length ?rej)))" by simp_all
  moreover from ne have "Promise_all f rs = Inl (projl (rs ! (?rej ! (f ?rej mod length ?rej))))"
    by (simp add: Promise_all_def Let_def)
  ultimately show ?thesis by blast
qed

lemma transload_one_fails:
  "isl (transload_one W u) \<longleftrightarrow> download_fails W u \<or> upload_fails W u"
  by (auto simp: transload_one_def download_fails_def upload_fails_def split: sum.splits)

lemma transload_one_wrapped:
  "transload_one W u = Inl x \<Longrightarrow> \<exists>c. x = TransloadingFailed u c"
  by (auto simp: transload_one_def split: sum.splits if_splits)

lemma transload_one_blob:
  "transload_one W u = Inr b \<longleftrightarrow>
   (\<exists>r bytes up. fetch W u = Inr r \<and> ok r \<and> blob r = Inr bytes
       \<and> uploadBlob W bytes = Inr up \<and> success up \<and> data_blob up = b)"
  by (auto simp: transload_one_def split: sum.splits)

lemma transload_fails:
  assumes "u \<in> set us" and "download_fails W u \<or> upload_fails W u"
  shows "\<exists>v c. v \<in> set us \<and> (download_fails W v \<or> upload_fails W v)
           \<and> transloadMastodonMediaToBsky W us = Inl (TransloadingFailed v c)"
proof -
  from assms have "transload_one W u \<in> set (map (transload_one W) us)"
    and "isl (transload_one W u)" by (simp_all add: transload_one_fails)
  from Promise_all_rejected [OF this, of "rejects_first W"] obtain i where
    i: "i < length us" "isl (transload_one W (us ! i))"
      "transloadMastodonMediaToBsky W us = Inl (projl (transload_one W (us ! i)))"
    by (auto simp: transloadMastodonMediaToBsky_def)
  from i(2) obtain x where x: "transload_one W (us ! i) = Inl x" by (cases "transload_one W (us ! i)") auto
  then obtain c where "x = TransloadingFailed (us ! i) c" using transload_one_wrapped by blast
  with i x show ?thesis
    by (intro exI [of _ "us ! i"] exI [of _ c]) (simp add: transload_one_fails [symmetric])
qed

lemma transload_all:
  assumes "transloadMastodonMediaToBsky W us = Inr bs"
  shows "length bs = length us \<and> (\<forall>i < length us. transload_one W (us ! i) = Inr (bs ! i))"
proof -
  from assms have a: "\<forall>r \<in> set (map (transload_one W) us). \<not> isl r"
    and b: "bs = map projr (map (transload_one W) us)"
    by (simp_all add: transloadMastodonMediaToBsky_def Promise_all_fulfilled)
  from b have l: "length bs = length us" by simp
  have "transload_one W (us ! i) = Inr (bs ! i)" if "i < length us" for i
  proof -
    from that a have "\<not> isl (transload_one W (us ! i))" by simp
    then obtain v where "transload_one W (us ! i) = Inr v" by (cases "transload_one W (us ! i)") auto
    with b that show ?thesis by simp
  qed
  with l show ?thesis by blast
qed

text \<open>
  C6: when the download or the upload of one attachment of a post fails, the transload
  of its attachments fails as a whole and so does the building of the embed: the result
  is an error and no list of blobs, and the error carries the URL of an item that
  failed. A list that the transload returns has one blob for every source: the blob
  that the upload of that source's download gave. An embed that is built has one image
  for every attachment, with that blob and the attachment's description and size.
\<close>

theorem media_batch_all_or_nothing:
  "(a \<in> set (mediaAttachments s)
      \<and> (download_fails W (att_url a) \<or> upload_fails W (att_url a))
    \<longrightarrow> (\<exists>u c. u \<in> set (map att_url (mediaAttachments s))
             \<and> (download_fails W u \<or> upload_fails W u)
             \<and> transloadMastodonMediaToBsky W (map att_url (mediaAttachments s))
                 = Inl (TransloadingFailed u c)
             \<and> mastodonMediaToBskyEmbeds W s = Inl (TransloadingFailed u c)))
   \<and> (transloadMastodonMediaToBsky W us = Inr bs
    \<longrightarrow> length bs = length us
        \<and> (\<forall>i < length us. \<exists>r bytes up.
               fetch W (us ! i) = Inr r \<and> ok r \<and> blob r = Inr bytes
               \<and> uploadBlob W bytes = Inr up \<and> success up \<and> bs ! i = data_blob up))
   \<and> (mastodonMediaToBskyEmbeds W s = Inr em
    \<longrightarrow> (\<exists>imgs. em = Images imgs
           \<and> length imgs = length (mediaAttachments s)
           \<and> (\<forall>i < length (mediaAttachments s). \<exists>r bytes up.
                  fetch W (att_url (mediaAttachments s ! i)) = Inr r \<and> ok r
                  \<and> blob r = Inr bytes \<and> uploadBlob W bytes = Inr up \<and> success up
                  \<and> image (imgs ! i) = data_blob up
                  \<and> alt (imgs ! i) = att_description (mediaAttachments s ! i)
                  \<and> aspectRatio (imgs ! i)
                      = \<lparr>width = att_width (mediaAttachments s ! i),
                         height = att_height (mediaAttachments s ! i)\<rparr>)))"
proof (intro conjI impI)
  assume "a \<in> set (mediaAttachments s)
      \<and> (download_fails W (att_url a) \<or> upload_fails W (att_url a))"
  then have "att_url a \<in> set (map att_url (mediaAttachments s))"
    and "download_fails W (att_url a) \<or> upload_fails W (att_url a)" by simp_all
  from transload_fails [OF this]
  show "\<exists>u c. u \<in> set (map att_url (mediaAttachments s))
             \<and> (download_fails W u \<or> upload_fails W u)
             \<and> transloadMastodonMediaToBsky W (map att_url (mediaAttachments s))
                 = Inl (TransloadingFailed u c)
             \<and> mastodonMediaToBskyEmbeds W s = Inl (TransloadingFailed u c)"
    by (auto simp: mastodonMediaToBskyEmbeds_def)
next
  assume "transloadMastodonMediaToBsky W us = Inr bs"
  from transload_all [OF this]
  show "length bs = length us" by simp
next
  assume "transloadMastodonMediaToBsky W us = Inr bs"
  from transload_all [OF this]
  show "\<forall>i < length us. \<exists>r bytes up.
               fetch W (us ! i) = Inr r \<and> ok r \<and> blob r = Inr bytes
               \<and> uploadBlob W bytes = Inr up \<and> success up \<and> bs ! i = data_blob up"
    by (auto simp: transload_one_blob)
next
  assume e: "mastodonMediaToBskyEmbeds W s = Inr em"
  let ?as = "mediaAttachments s"
  from e obtain bs where t: "transloadMastodonMediaToBsky W (map att_url ?as) = Inr bs"
    and em: "em = Images (map (\<lambda>(attachment, b).
                    \<lparr>alt = att_description attachment, image = b,
                     aspectRatio = \<lparr>width = att_width attachment,
                                    height = att_height attachment\<rparr>\<rparr>) (zip ?as bs))"
    by (auto simp: mastodonMediaToBskyEmbeds_def split: sum.splits)
  from transload_all [OF t] have l: "length bs = length ?as"
    and b: "\<forall>i < length ?as. transload_one W (att_url (?as ! i)) = Inr (bs ! i)" by simp_all
  let ?imgs = "map (\<lambda>(attachment, b).
                    \<lparr>alt = att_description attachment, image = b,
                     aspectRatio = \<lparr>width = att_width attachment,
                                    height = att_height attachment\<rparr>\<rparr>) (zip ?as bs)"
  have "\<exists>r bytes up.
          fetch W (att_url (?as ! i)) = Inr r \<and> ok r
          \<and> blob r = Inr bytes \<and> uploadBlob W bytes = Inr up \<and> success up
          \<and> image (?imgs ! i) = data_blob up
          \<and> alt (?imgs ! i) = att_description (?as ! i)
          \<and> aspectRatio (?imgs ! i)
              = \<lparr>width = att_width (?as ! i), height = att_height (?as ! i)\<rparr>"
    if "i < length ?as" for i
  proof -
    from b that have "transload_one W (att_url (?as ! i)) = Inr (bs ! i)" by simp
    then obtain r bytes up where "fetch W (att_url (?as ! i)) = Inr r" "ok r"
      "blob r = Inr bytes" "uploadBlob W bytes = Inr up" "success up" "data_blob up = bs ! i"
      unfolding transload_one_blob by blast
    with that l show ?thesis by simp
  qed
  with em l show "\<exists>imgs. em = Images imgs
           \<and> length imgs = length ?as
           \<and> (\<forall>i < length ?as. \<exists>r bytes up.
                  fetch W (att_url (?as ! i)) = Inr r \<and> ok r
                  \<and> blob r = Inr bytes \<and> uploadBlob W bytes = Inr up \<and> success up
                  \<and> image (imgs ! i) = data_blob up
                  \<and> alt (imgs ! i) = att_description (?as ! i)
                  \<and> aspectRatio (imgs ! i)
                      = \<lparr>width = att_width (?as ! i), height = att_height (?as ! i)\<rparr>)"
    by (intro exI [of _ ?imgs]) simp
qed

theorem media_batch_all_or_nothing_witness:
  "mastodonMediaToBskyEmbeds world_no_download two_pictures
     = Inl (TransloadingFailed (js ''https://files/2.png'') DownloadReturnedStatus)
   \<and> mastodonMediaToBskyEmbeds world_no_upload two_pictures
     = Inl (TransloadingFailed (js ''https://files/1.png'') UploadNotSuccessful)
   \<and> mastodonMediaToBskyEmbeds world_ok two_pictures
     = Inr (Images [picture_1_image, picture_1_image])"
proof -
  let ?u1 = "js ''https://files/1.png''" and ?u2 = "js ''https://files/2.png''"
  have urls: "map att_url (mediaAttachments two_pictures) = [?u1, ?u2]"
    by (simp add: two_pictures_def picture_def)
  have a: "picture \<in> set (mediaAttachments two_pictures)" by (simp add: two_pictures_def)
  have f: "download_fails world_no_download (att_url picture)"
    by (simp add: download_fails_def world_no_download_def world_ok_def picture_def)
  have g: "\<not> (download_fails world_no_download ?u1 \<or> upload_fails world_no_download ?u1)"
    by (simp add: download_fails_def upload_fails_def world_no_download_def world_ok_def js_def)
  from media_batch_all_or_nothing [THEN conjunct1, rule_format, OF conjI [OF a disjI1 [OF f]]]
  obtain u c where u: "u \<in> set (map att_url (mediaAttachments two_pictures))"
    and d: "download_fails world_no_download u \<or> upload_fails world_no_download u"
    and m: "mastodonMediaToBskyEmbeds world_no_download two_pictures = Inl (TransloadingFailed u c)"
    by blast
  from u urls have "u = ?u1 \<or> u = ?u2" by auto
  with d g have u2: "u = ?u2" by blast
  have "transload_one world_no_download ?u2 = Inl (TransloadingFailed ?u2 DownloadReturnedStatus)"
    by (simp add: transload_one_def world_no_download_def world_ok_def)
  moreover have "transload_one world_no_download ?u1 = Inr \<lparr>ref = ''blob'', original = ''blob''\<rparr>"
    by (simp add: transload_one_def world_no_download_def world_ok_def js_def)
  ultimately have "mastodonMediaToBskyEmbeds world_no_download two_pictures
     = Inl (TransloadingFailed ?u2 DownloadReturnedStatus)"
    by (simp add: mastodonMediaToBskyEmbeds_def transloadMastodonMediaToBsky_def urls
        Promise_all_def Let_def upt_rec)
  with m u2 have 1: "mastodonMediaToBskyEmbeds world_no_download two_pictures
     = Inl (TransloadingFailed (js ''https://files/2.png'') DownloadReturnedStatus)" by simp
  have "\<And>v. transload_one world_no_upload v = Inl (TransloadingFailed v UploadNotSuccessful)"
    by (simp add: transload_one_def world_no_upload_def world_ok_def)
  then have 2: "mastodonMediaToBskyEmbeds world_no_upload two_pictures
     = Inl (TransloadingFailed ?u1 UploadNotSuccessful)"
    by (simp add: mastodonMediaToBskyEmbeds_def transloadMastodonMediaToBsky_def urls
        Promise_all_def Let_def upt_rec world_no_upload_def world_ok_def)
  have "\<And>v. transload_one world_ok v = Inr \<lparr>ref = ''blob'', original = ''blob''\<rparr>"
    by (simp add: transload_one_def world_ok_def)
  then have 3: "mastodonMediaToBskyEmbeds world_ok two_pictures
     = Inr (Images [picture_1_image, picture_1_image])"
    by (simp add: mastodonMediaToBskyEmbeds_def transloadMastodonMediaToBsky_def urls
        Promise_all_def Let_def upt_rec two_pictures_def picture_def picture_1_image_def)
  from 1 2 3 show ?thesis by blast
qed

subsection \<open>The post assembler\<close>

text \<open>
  The reply reference of an assembled post is decided by the ledger entry of the parent.
  Where the parent has no entry the assembler returns no post at all.
\<close>

lemma assemble_reply:
  "mastodonStatusToBskyPost L W st s = Inr p \<Longrightarrow>
   reply p =
     (case inReplyToId s of
        None \<Rightarrow> None
      | Some k \<Rightarrow>
          if k = [] then None
          else (case st k of
                  None \<Rightarrow> None
                | Some e \<Rightarrow>
                    (case bsky e of
                       None \<Rightarrow> None
                     | Some b \<Rightarrow>
                         Some \<lparr>parent = entry_post b,
                               root = (case entry_root b of Some r \<Rightarrow> r | None \<Rightarrow> entry_post b)\<rparr>)))"
  unfolding mastodonStatusToBskyPost_def Let_def
  by (auto split: sum.splits option.splits if_splits)

lemma assemble_missing_parent:
  "inReplyToId s = Some k \<Longrightarrow> k \<noteq> [] \<Longrightarrow> st k = None \<Longrightarrow>
   \<exists>e. mastodonStatusToBskyPost L W st s = Inl e"
  unfolding mastodonStatusToBskyPost_def Let_def
  by (auto split: sum.splits option.splits if_splits)

text \<open>The assembler on the concrete posts.\<close>

lemma assemble_hello_in:
  "detectFacets W (js ''Hello'' @ [0x0A, 0x0A] @ js ''World'') = Inr [] \<Longrightarrow>
   mastodonStatusToBskyPost ascii_lib W st hello_status = Inr hello_post"
  unfolding mastodonStatusToBskyPost_def reformat_hello
  by (simp add: hello_status_def hello_post_def ascii_lib_def)

lemma assemble_hello:
  "mastodonStatusToBskyPost ascii_lib world_ok st hello_status = Inr hello_post"
  by (rule assemble_hello_in) (simp add: world_ok_def)

lemma assemble_reply_known:
  "mastodonStatusToBskyPost ascii_lib world_ok
     [''1'' \<mapsto> \<lparr>bsky = Some \<lparr>entry_post = post_1, entry_root = None\<rparr>\<rparr>] reply_status
   = Inr reply_post"
  unfolding mastodonStatusToBskyPost_def reformat_reply
  by (simp add: world_ok_def hello_status_def reply_status_def reply_post_def ascii_lib_def)

text \<open>
  C4: a root post is recorded in the ledger as a success entry with its destination
  identity and no root. A reply to it that is assembled afterwards carries that
  identity both as \<open>reply.parent\<close> and as \<open>reply.root\<close>. (The reply names its
  parent by a source post id, which is not the empty string.)
\<close>

theorem reply_to_recorded_root:
  assumes "inReplyToId s = Some k" and "k \<noteq> []"
    and "st k = Some \<lparr>bsky = Some \<lparr>entry_post = p, entry_root = None\<rparr>\<rparr>"
    and "mastodonStatusToBskyPost L W st s = Inr bp"
  shows "reply bp = Some \<lparr>parent = p, root = p\<rparr>"
  using assemble_reply [OF assms(4)] assms(1-3) by simp

theorem reply_to_recorded_root_witness:
  "mastodonStatusToBskyPost ascii_lib world_ok
     [''1'' \<mapsto> \<lparr>bsky = Some \<lparr>entry_post = post_1, entry_root = None\<rparr>\<rparr>] reply_status
   = Inr reply_post
   \<and> reply reply_post = Some \<lparr>parent = post_1, root = post_1\<rparr>"
proof -
  have 1: "inReplyToId reply_status = Some ''1''" by (simp add: reply_status_def)
  have 2: "''1'' \<noteq> []" by simp
  have 3: "[''1'' \<mapsto> \<lparr>bsky = Some \<lparr>entry_post = post_1, entry_root = None\<rparr>\<rparr>] ''1''
           = Some \<lparr>bsky = Some \<lparr>entry_post = post_1, entry_root = None\<rparr>\<rparr>" by simp
  from reply_to_recorded_root [OF 1 2 3 assemble_reply_known] assemble_reply_known
  show ?thesis by (rule conjI [rotated])
qed

subsection \<open>The ingestion loop\<close>

text \<open>The body of the loop, by the outcome of assembling and submitting the post.\<close>

lemma step_failure:
  assumes "mastodonStatusToBskyPost L W (storage st) s = Inl e
           \<or> (\<exists>p. mastodonStatusToBskyPost L W (storage st) s = Inr p \<and> agent_post W p = Inl e)"
  shows "ingestion_step L W st s =
     (case setItem_error W (status_id s) \<lparr>bsky = None\<rparr> of
        None \<Rightarrow>
          (st\<lparr>console := console st @ [Log_status s, Error_cross_posting e],
              storage := (storage st)(status_id s \<mapsto> \<lparr>bsky = None\<rparr>),
              writes := writes st @ [(status_id s, \<lparr>bsky = None\<rparr>)]\<rparr>, None)
      | Some e' \<Rightarrow> (st\<lparr>console := console st @ [Log_status s]\<rparr>, Some e'))"
  using assms
  by (auto simp: ingestion_step_def setItem_def Let_def split: option.splits)

lemma step_success:
  assumes "mastodonStatusToBskyPost L W (storage st) s = Inr p" and "agent_post W p = Inr posted"
  shows "ingestion_step L W st s =
     (let v = \<lparr>bsky = Some \<lparr>entry_post = posted,
                             entry_root = (case reply p of Some r \<Rightarrow> Some (root r) | None \<Rightarrow> None)\<rparr>\<rparr>
      in case setItem_error W (status_id s) v of
        None \<Rightarrow>
          (st\<lparr>console := console st @ [Log_status s, Log_posted_and_saved s p posted],
              published := published st @ [p],
              storage := (storage st)(status_id s \<mapsto> v),
              writes := writes st @ [(status_id s, v)]\<rparr>, None)
      | Some e' \<Rightarrow>
          (st\<lparr>console := console st @ [Log_status s, Error_result_storage_failed e'],
              published := published st @ [p]\<rparr>, None))"
  using assms
  by (auto simp: ingestion_step_def setItem_def Let_def split: option.splits)

lemma step_cases:
  "(\<exists>e. mastodonStatusToBskyPost L W (storage st) s = Inl e
           \<or> (\<exists>p. mastodonStatusToBskyPost L W (storage st) s = Inr p \<and> agent_post W p = Inl e))
   \<or> (\<exists>p posted. mastodonStatusToBskyPost L W (storage st) s = Inr p \<and> agent_post W p = Inr posted)"
  by (metis sum.exhaust)

subsection \<open>A reply whose parent is not in the ledger\<close>

text \<open>
  C2 fails on the code for a parent that has no ledger entry: \<^verbatim>\<open>getItem\<close> gives
  \<^verbatim>\<open>undefined\<close>, reading \<^verbatim>\<open>parent.bsky\<close> throws, and the assembler returns no
  post. The loop then records the reply as failed and publishes nothing.
\<close>

theorem reply_to_unrecorded_parent_throws:
  "mastodonStatusToBskyPost ascii_lib world_ok (storage empty_state) reply_status = Inl TypeError
   \<and> ingestion_step ascii_lib world_ok empty_state reply_status
     = (empty_state\<lparr>console := [Log_status reply_status, Error_cross_posting TypeError],
                    storage := [''2'' \<mapsto> \<lparr>bsky = None\<rparr>],
                    writes := [(''2'', \<lparr>bsky = None\<rparr>)]\<rparr>, None)"
proof -
  have a: "mastodonStatusToBskyPost ascii_lib world_ok (storage empty_state) reply_status = Inl TypeError"
    unfolding mastodonStatusToBskyPost_def reformat_reply
    by (simp add: world_ok_def hello_status_def reply_status_def ascii_lib_def empty_state_def)
  then have "mastodonStatusToBskyPost ascii_lib world_ok (storage empty_state) reply_status = Inl TypeError
     \<or> (\<exists>p. mastodonStatusToBskyPost ascii_lib world_ok (storage empty_state) reply_status = Inr p
           \<and> agent_post world_ok p = Inl TypeError)" by blast
  from step_failure [OF this] a show ?thesis
    by (simp add: world_ok_def empty_state_def reply_status_def hello_status_def)
qed

text \<open>
  For a parent whose entry is the failure value the assembled post has no reply
  reference, as C2 says.
\<close>

lemma reply_to_failed_parent:
  "inReplyToId s = Some k \<Longrightarrow> st k = Some \<lparr>bsky = None\<rparr> \<Longrightarrow>
   mastodonStatusToBskyPost L W st s = Inr p \<Longrightarrow> reply p = None"
  by (drule assemble_reply) simp

lemma reply_to_failed_parent_assembled:
  "mastodonStatusToBskyPost ascii_lib world_ok [''1'' \<mapsto> \<lparr>bsky = None\<rparr>] reply_status
   = Inr (reply_post\<lparr>reply := None\<rparr>)"
  unfolding mastodonStatusToBskyPost_def reformat_reply
  by (simp add: world_ok_def hello_status_def reply_status_def reply_post_def ascii_lib_def)

subsection \<open>Writes of the ledger\<close>

lemma step_writes:
  "(writes (fst (ingestion_step L W st s)) = writes st
      \<and> storage (fst (ingestion_step L W st s)) = storage st)
   \<or> (\<exists>v. writes (fst (ingestion_step L W st s)) = writes st @ [(status_id s, v)]
         \<and> storage (fst (ingestion_step L W st s)) = (storage st)(status_id s \<mapsto> v))"
proof -
  from step_cases [of L W st s] show ?thesis
  proof (elim disjE exE conjE)
    fix e assume "mastodonStatusToBskyPost L W (storage st) s = Inl e"
    then show ?thesis
      by (simp add: step_failure split: option.splits)
  next
    fix e p assume "mastodonStatusToBskyPost L W (storage st) s = Inr p" "agent_post W p = Inl e"
    then have "mastodonStatusToBskyPost L W (storage st) s = Inl e
           \<or> (\<exists>p. mastodonStatusToBskyPost L W (storage st) s = Inr p \<and> agent_post W p = Inl e)"
      by blast
    then show ?thesis
      by (simp add: step_failure split: option.splits)
  next
    fix p posted assume "mastodonStatusToBskyPost L W (storage st) s = Inr p" "agent_post W p = Inr posted"
    then show ?thesis
      by (simp add: step_success Let_def split: option.splits)
  qed
qed

lemma loop_writes:
  "distinct (yielded_ids items) \<Longrightarrow>
   \<exists>ws. writes (fst (ingestion_loop L st items)) = writes st @ ws
       \<and> distinct (map fst ws)
       \<and> set (map fst ws) \<subseteq> set (yielded_ids items)
       \<and> storage (fst (ingestion_loop L st items)) = storage st ++ map_of ws"
proof (induction L st items rule: ingestion_loop.induct)
  case (1 L st)
  then show ?case by simp
next
  case (2 L st m rest)
  then show ?case by simp
next
  case (3 L st W s rest)
  obtain st' r where step: "ingestion_step L W st s = (st', r)" by (cases "ingestion_step L W st s")
  from step_writes [of L W st s] step
  have w: "(writes st' = writes st \<and> storage st' = storage st)
         \<or> (\<exists>v. writes st' = writes st @ [(status_id s, v)]
               \<and> storage st' = (storage st)(status_id s \<mapsto> v))" by simp
  show ?case
  proof (cases r)
    case (Some e)
    with step have "fst (ingestion_loop L st (Inr (W, s) # rest)) = st'" by simp
    then have eq: "fst (ingestion_loop L st (Inr (W, s) # rest)) = st'" .
    from w show ?thesis
    proof (elim disjE exE conjE)
      assume "writes st' = writes st" "storage st' = storage st"
      then show ?thesis unfolding eq by (intro exI [of _ "[]"]) simp
    next
      fix v assume "writes st' = writes st @ [(status_id s, v)]"
        "storage st' = (storage st)(status_id s \<mapsto> v)"
      then show ?thesis unfolding eq
        by (intro exI [of _ "[(status_id s, v)]"]) (auto simp: map_add_def fun_eq_iff)
    qed
  next
    case None
    with step have eq: "ingestion_loop L st (Inr (W, s) # rest) = ingestion_loop L st' rest" by simp
    from "3.prems" have d: "distinct (yielded_ids rest)" and n: "status_id s \<notin> set (yielded_ids rest)"
      by simp_all
    from "3.IH" [OF step [symmetric] None d] obtain ws where
      ws: "writes (fst (ingestion_loop L st' rest)) = writes st' @ ws"
        "distinct (map fst ws)" "set (map fst ws) \<subseteq> set (yielded_ids rest)"
        "storage (fst (ingestion_loop L st' rest)) = storage st' ++ map_of ws" by blast
    from w show ?thesis
    proof (elim disjE exE conjE)
      assume "writes st' = writes st" "storage st' = storage st"
      with ws eq show ?thesis by (intro exI [of _ ws]) auto
    next
      fix v assume a: "writes st' = writes st @ [(status_id s, v)]"
        "storage st' = (storage st)(status_id s \<mapsto> v)"
      from n ws(3) have k: "status_id s \<notin> fst ` set ws" by auto
      then have none: "map_of ws (status_id s) = None" by (simp add: map_of_eq_None_iff)
      have m: "(storage st)(status_id s \<mapsto> v) ++ map_of ws
                 = storage st ++ map_of ((status_id s, v) # ws)"
      proof (rule ext)
        fix x show "((storage st)(status_id s \<mapsto> v) ++ map_of ws) x
                 = (storage st ++ map_of ((status_id s, v) # ws)) x"
          using none by (cases "x = status_id s") (simp_all add: map_add_def split: option.splits)
      qed
      have 1: "writes (fst (ingestion_loop L st (Inr (W, s) # rest)))
               = writes st @ (status_id s, v) # ws"
        by (simp only: eq ws(1) a(1)) simp
      have 2: "distinct (map fst ((status_id s, v) # ws))"
        using k ws(2) by simp
      have 3: "set (map fst ((status_id s, v) # ws)) \<subseteq> set (yielded_ids (Inr (W, s) # rest))"
        using ws(3) by auto
      have 4: "storage (fst (ingestion_loop L st (Inr (W, s) # rest)))
               = storage st ++ map_of ((status_id s, v) # ws)"
        by (simp only: eq ws(4) a(2) m)
      from 1 2 3 4 show ?thesis by blast
    qed
  qed
qed

lemma loop_append:
  "ingestion_loop L st (pre @ post) =
     (case ingestion_loop L st pre of
        (st', Some e) \<Rightarrow> (st', Some e)
      | (st', None) \<Rightarrow> ingestion_loop L st' post)"
  by (induction L st pre rule: ingestion_loop.induct) (auto split: prod.splits option.splits)

lemma yielded_ids_append: "yielded_ids (pre @ post) = yielded_ids pre @ yielded_ids post"
  by (induction pre rule: yielded_ids.induct) simp_all

lemma map_le_add_disjoint: "dom m \<inter> dom m' = {} \<Longrightarrow> m \<subseteq>\<^sub>m m ++ m'"
  by (auto simp: map_le_def map_add_def split: option.splits)

lemma loop_keeps_entries:
  assumes "distinct (yielded_ids items)" and "set (yielded_ids items) \<inter> dom (storage st) = {}"
  shows "storage st \<subseteq>\<^sub>m storage (fst (ingestion_loop L st items))"
proof -
  from loop_writes [OF assms(1), of L st] obtain ws where
    ws: "set (map fst ws) \<subseteq> set (yielded_ids items)"
      "storage (fst (ingestion_loop L st items)) = storage st ++ map_of ws" by blast
  from ws(1) assms(2) have "dom (storage st) \<inter> dom (map_of ws) = {}"
    by (auto simp: dom_map_of_conv_image_fst)
  then show ?thesis unfolding ws(2) by (rule map_le_add_disjoint)
qed

text \<open>
  C8, amended: over a run of the loop on posts whose source post ids are pairwise
  distinct and have no entry in the ledger when the run starts, each key of the ledger
  is written at most once and only the keys of those posts are written; the ledger at
  the end is the ledger at the start with every written entry as it was written; and
  what the ledger holds at any point of the run it still holds, unchanged, at the end:
  no entry is changed or removed after its write.
\<close>

theorem ledger_keys_written_once:
  assumes "distinct (yielded_ids items)" and "writes st = []"
    and "set (yielded_ids items) \<inter> dom (storage st) = {}"
    and "items = pre @ post"
  shows "distinct (map fst (writes (fst (ingestion_loop L st items))))
       \<and> set (map fst (writes (fst (ingestion_loop L st items)))) \<subseteq> set (yielded_ids items)
       \<and> storage (fst (ingestion_loop L st items))
           = storage st ++ map_of (writes (fst (ingestion_loop L st items)))
       \<and> storage (fst (ingestion_loop L st pre))
           \<subseteq>\<^sub>m storage (fst (ingestion_loop L st items))"
proof -
  have 1: "distinct (map fst (writes (fst (ingestion_loop L st items))))
       \<and> set (map fst (writes (fst (ingestion_loop L st items)))) \<subseteq> set (yielded_ids items)
       \<and> storage (fst (ingestion_loop L st items))
           = storage st ++ map_of (writes (fst (ingestion_loop L st items)))"
    using loop_writes [OF assms(1), of L st] assms(2) by auto
  obtain st1 r where pre: "ingestion_loop L st pre = (st1, r)" by (cases "ingestion_loop L st pre")
  have 2: "storage st1 \<subseteq>\<^sub>m storage (fst (ingestion_loop L st items))"
  proof (cases r)
    case (Some e)
    with pre show ?thesis by (simp add: assms(4) loop_append)
  next
    case None
    with pre have e: "ingestion_loop L st items = ingestion_loop L st1 post"
      by (simp add: assms(4) loop_append)
    from assms(1,4) have dpre: "distinct (yielded_ids pre)" and dpost: "distinct (yielded_ids post)"
      and dis: "set (yielded_ids pre) \<inter> set (yielded_ids post) = {}"
      by (simp_all add: yielded_ids_append)
    from loop_writes [OF dpre, of L st] pre obtain ws where
      ws: "set (map fst ws) \<subseteq> set (yielded_ids pre)" "storage st1 = storage st ++ map_of ws"
      by auto
    from assms(3,4) have "set (yielded_ids post) \<inter> dom (storage st) = {}"
      by (auto simp: yielded_ids_append)
    with ws dis have "set (yielded_ids post) \<inter> dom (storage st1) = {}"
      by (auto simp: dom_map_of_conv_image_fst)
    from loop_keeps_entries [OF dpost this] show ?thesis unfolding e .
  qed
  from 1 2 pre show ?thesis by simp
qed

theorem ledger_keys_written_once_witness:
  "distinct (map fst (writes (fst (ingestion_loop ascii_lib empty_state two_posts))))
   \<and> set (map fst (writes (fst (ingestion_loop ascii_lib empty_state two_posts))))
       \<subseteq> set (yielded_ids two_posts)
   \<and> storage (fst (ingestion_loop ascii_lib empty_state two_posts))
       = storage empty_state ++ map_of (writes (fst (ingestion_loop ascii_lib empty_state two_posts)))
   \<and> storage (fst (ingestion_loop ascii_lib empty_state [Inr (world_ok, hello_status)]))
       \<subseteq>\<^sub>m storage (fst (ingestion_loop ascii_lib empty_state two_posts))"
proof -
  have 1: "distinct (yielded_ids two_posts)"
    by (simp add: two_posts_def hello_status_def reply_status_def)
  have 2: "writes empty_state = []" by (simp add: empty_state_def)
  have 3: "set (yielded_ids two_posts) \<inter> dom (storage empty_state) = {}"
    by (simp add: empty_state_def)
  have 4: "two_posts = [Inr (world_ok, hello_status)] @ [Inr (world_ok, reply_status)]"
    by (simp add: two_posts_def)
  from ledger_keys_written_once [OF 1 2 3 4] show ?thesis .
qed

text \<open>
  C8 as it is written fails: the loop writes with \<^verbatim>\<open>setItem\<close> whatever the ledger
  holds, so when the stream delivers the same post twice its key is written twice, and
  here the success entry of the first attempt is replaced by the failure value of the
  second. In the same way an entry that the ledger holds from an earlier run is
  replaced when its post is delivered again.
\<close>

theorem same_post_id_written_twice:
  "writes (fst (main ascii_lib ''me'' empty_state
                  [(world_ok, hello_event), (world_post_rejected, hello_event)]))
   = [(''1'', \<lparr>bsky = Some \<lparr>entry_post = post_1, entry_root = None\<rparr>\<rparr>),
      (''1'', \<lparr>bsky = None\<rparr>)]"
proof -
  have i: "includeEvent ''me'' hello_event"
    by (simp add: includeEvent_def hello_event_def hello_status_def)
  have m: "\<not> list_ex (\<lambda>a. att_type a \<noteq> ''image'') (mediaAttachments (payload hello_event))"
    by (simp add: hello_event_def hello_status_def)
  have g: "getMastodonStatusStream ''me'' [(world_ok, hello_event), (world_post_rejected, hello_event)]
           = [Inr (world_ok, hello_status), Inr (world_post_rejected, hello_status)]"
    using i m by (simp add: hello_event_def)
  have a1: "\<And>st. mastodonStatusToBskyPost ascii_lib world_ok st hello_status = Inr hello_post"
    by (rule assemble_hello_in) (simp add: world_ok_def)
  have p1: "agent_post world_ok hello_post = Inr post_1" by (simp add: world_ok_def)
  have a2: "\<And>st. mastodonStatusToBskyPost ascii_lib world_post_rejected st hello_status = Inr hello_post"
    by (rule assemble_hello_in) (simp add: world_post_rejected_def world_ok_def)
  have p2: "agent_post world_post_rejected hello_post = Inl (Rejected ''submission'')"
    by (simp add: world_post_rejected_def)
  have f2: "\<And>st. mastodonStatusToBskyPost ascii_lib world_post_rejected (storage st) hello_status
               = Inl (Rejected ''submission'')
             \<or> (\<exists>p. mastodonStatusToBskyPost ascii_lib world_post_rejected (storage st)
                       hello_status = Inr p
                    \<and> agent_post world_post_rejected p = Inl (Rejected ''submission''))"
    using a2 p2 by blast
  show ?thesis
    unfolding main_def g
    by (simp add: step_success [OF a1 p1] step_failure [OF f2] Let_def)
      (simp add: world_ok_def world_post_rejected_def empty_state_def hello_status_def hello_post_def)
qed

subsection \<open>What the loop records\<close>

text \<open>
  C5 as it is written fails: the entry of a post that is no reply holds the returned
  identity as its post and \<^verbatim>\<open>null\<close> as its root, not the identity.
\<close>

theorem root_post_entry_has_null_root:
  "published (fst (ingestion_step ascii_lib world_ok empty_state hello_status)) = [hello_post]
   \<and> storage (fst (ingestion_step ascii_lib world_ok empty_state hello_status)) ''1''
       = Some \<lparr>bsky = Some \<lparr>entry_post = post_1, entry_root = None\<rparr>\<rparr>
   \<and> storage (fst (ingestion_step ascii_lib world_ok empty_state hello_status)) ''1''
       \<noteq> Some \<lparr>bsky = Some \<lparr>entry_post = post_1, entry_root = Some post_1\<rparr>\<rparr>"
proof -
  have a: "mastodonStatusToBskyPost ascii_lib world_ok (storage empty_state) hello_status = Inr hello_post"
    by (rule assemble_hello)
  have p: "agent_post world_ok hello_post = Inr post_1" by (simp add: world_ok_def)
  show ?thesis
    unfolding step_success [OF a p]
    by (simp add: Let_def world_ok_def empty_state_def hello_status_def hello_post_def)
qed

text \<open>
  C5, amended: when a post that is no reply is assembled, submitted and its entry
  written, the ledger holds under its source post id the returned identity as the post
  and \<^verbatim>\<open>null\<close> as the root. (A later reply takes the post identity where the root
  is \<^verbatim>\<open>null\<close>.)
\<close>

theorem root_post_entry_recorded:
  assumes "inReplyToId s = None"
    and "mastodonStatusToBskyPost L W (storage st) s = Inr p"
    and "agent_post W p = Inr posted"
    and "setItem_error W (status_id s) \<lparr>bsky = Some \<lparr>entry_post = posted, entry_root = None\<rparr>\<rparr> = None"
  shows "storage (fst (ingestion_step L W st s)) (status_id s)
           = Some \<lparr>bsky = Some \<lparr>entry_post = posted, entry_root = None\<rparr>\<rparr>
         \<and> writes (fst (ingestion_step L W st s))
           = writes st @ [(status_id s, \<lparr>bsky = Some \<lparr>entry_post = posted, entry_root = None\<rparr>\<rparr>)]
         \<and> published (fst (ingestion_step L W st s)) = published st @ [p]"
proof -
  from assemble_reply [OF assms(2)] assms(1) have "reply p = None" by simp
  with assms(4) show ?thesis
    unfolding step_success [OF assms(2,3)] by (simp add: Let_def)
qed

theorem root_post_entry_recorded_witness:
  "storage (fst (ingestion_step ascii_lib world_ok empty_state hello_status)) (status_id hello_status)
     = Some \<lparr>bsky = Some \<lparr>entry_post = post_1, entry_root = None\<rparr>\<rparr>
   \<and> writes (fst (ingestion_step ascii_lib world_ok empty_state hello_status))
     = writes empty_state @ [(status_id hello_status, \<lparr>bsky = Some \<lparr>entry_post = post_1, entry_root = None\<rparr>\<rparr>)]
   \<and> published (fst (ingestion_step ascii_lib world_ok empty_state hello_status))
     = published empty_state @ [hello_post]"
proof -
  have 1: "inReplyToId hello_status = None" by (simp add: hello_status_def)
  have 2: "mastodonStatusToBskyPost ascii_lib world_ok (storage empty_state) hello_status = Inr hello_post"
    by (rule assemble_hello)
  have 3: "agent_post world_ok hello_post = Inr post_1" by (simp add: world_ok_def)
  have 4: "setItem_error world_ok (status_id hello_status)
             \<lparr>bsky = Some \<lparr>entry_post = post_1, entry_root = None\<rparr>\<rparr> = None"
    by (simp add: world_ok_def)
  from root_post_entry_recorded [OF 1 2 3 4] show ?thesis .
qed

text \<open>
  C7 fails on the code. The submission of the first post is rejected, and the write of
  the failure value in the handler is rejected too. Nothing catches that exception:
  it leaves the loop, no entry is written, and the second post is never processed,
  where the write of a success entry is guarded and its failure only written to the
  console.
\<close>

theorem failed_failure_write_halts_loop:
  "mastodonStatusToBskyPost ascii_lib world_storage_down (storage empty_state) hello_status = Inr hello_post
   \<and> agent_post world_storage_down hello_post = Inl (Rejected ''submission'')
   \<and> ingestion_loop ascii_lib empty_state
       [Inr (world_storage_down, hello_status), Inr (world_ok, hello_status\<lparr>status_id := ''3''\<rparr>)]
     = (empty_state\<lparr>console := [Log_status hello_status]\<rparr>, Some (Rejected ''storage''))"
proof -
  have a: "mastodonStatusToBskyPost ascii_lib world_storage_down (storage empty_state) hello_status
           = Inr hello_post"
    unfolding mastodonStatusToBskyPost_def reformat_hello
    by (simp add: world_storage_down_def world_ok_def hello_status_def hello_post_def ascii_lib_def)
  have p: "agent_post world_storage_down hello_post = Inl (Rejected ''submission'')"
    by (simp add: world_storage_down_def)
  have f: "mastodonStatusToBskyPost ascii_lib world_storage_down (storage empty_state) hello_status
             = Inl (Rejected ''submission'')
           \<or> (\<exists>p. mastodonStatusToBskyPost ascii_lib world_storage_down (storage empty_state)
                     hello_status = Inr p
                  \<and> agent_post world_storage_down p = Inl (Rejected ''submission''))"
    using a p by blast
  have "ingestion_step ascii_lib world_storage_down empty_state hello_status
        = (empty_state\<lparr>console := [Log_status hello_status]\<rparr>, Some (Rejected ''storage''))"
    unfolding step_failure [OF f]
    by (simp add: world_storage_down_def empty_state_def)
  with a p show ?thesis by simp
qed

text \<open>
  What the loop does for one post in the other cases. When assembling or submitting
  the post fails and the write of the failure value succeeds, the ledger holds the
  failure value under the source post id, nothing is published and the loop goes on
  with the next item. When the post is published and the write of its entry fails, the
  failure is written to the console, the post stays published, the ledger is unchanged
  and the loop goes on with the next item.
\<close>

theorem failure_isolated_per_item:
  "((mastodonStatusToBskyPost L W (storage st) s = Inl e
       \<or> (\<exists>p. mastodonStatusToBskyPost L W (storage st) s = Inr p \<and> agent_post W p = Inl e))
      \<and> setItem_error W (status_id s) \<lparr>bsky = None\<rparr> = None
    \<longrightarrow> (let st' = st\<lparr>console := console st @ [Log_status s, Error_cross_posting e],
                       storage := (storage st)(status_id s \<mapsto> \<lparr>bsky = None\<rparr>),
                       writes := writes st @ [(status_id s, \<lparr>bsky = None\<rparr>)]\<rparr>
         in ingestion_step L W st s = (st', None)
            \<and> ingestion_loop L st (Inr (W, s) # rest) = ingestion_loop L st' rest))
   \<and> (mastodonStatusToBskyPost L W (storage st) s = Inr p \<and> agent_post W p = Inr posted
      \<and> setItem_error W (status_id s)
           \<lparr>bsky = Some \<lparr>entry_post = posted,
                         entry_root = (case reply p of Some r \<Rightarrow> Some (root r) | None \<Rightarrow> None)\<rparr>\<rparr>
         = Some e'
    \<longrightarrow> (let st' = st\<lparr>console := console st @ [Log_status s, Error_result_storage_failed e'],
                       published := published st @ [p]\<rparr>
         in ingestion_step L W st s = (st', None)
            \<and> ingestion_loop L st (Inr (W, s) # rest) = ingestion_loop L st' rest))"
proof (intro conjI impI)
  assume a: "(mastodonStatusToBskyPost L W (storage st) s = Inl e
       \<or> (\<exists>p. mastodonStatusToBskyPost L W (storage st) s = Inr p \<and> agent_post W p = Inl e))
      \<and> setItem_error W (status_id s) \<lparr>bsky = None\<rparr> = None"
  then show "let st' = st\<lparr>console := console st @ [Log_status s, Error_cross_posting e],
                       storage := (storage st)(status_id s \<mapsto> \<lparr>bsky = None\<rparr>),
                       writes := writes st @ [(status_id s, \<lparr>bsky = None\<rparr>)]\<rparr>
         in ingestion_step L W st s = (st', None)
            \<and> ingestion_loop L st (Inr (W, s) # rest) = ingestion_loop L st' rest"
    using step_failure [of L W st s e] by (simp add: Let_def)
next
  assume a: "mastodonStatusToBskyPost L W (storage st) s = Inr p \<and> agent_post W p = Inr posted
      \<and> setItem_error W (status_id s)
           \<lparr>bsky = Some \<lparr>entry_post = posted,
                         entry_root = (case reply p of Some r \<Rightarrow> Some (root r) | None \<Rightarrow> None)\<rparr>\<rparr>
         = Some e'"
  then show "let st' = st\<lparr>console := console st @ [Log_status s, Error_result_storage_failed e'],
                       published := published st @ [p]\<rparr>
         in ingestion_step L W st s = (st', None)
            \<and> ingestion_loop L st (Inr (W, s) # rest) = ingestion_loop L st' rest"
    using step_success [of L W st s p posted] by (simp add: Let_def)
qed

theorem failure_isolated_per_item_witness:
  "ingestion_step ascii_lib world_post_rejected empty_state hello_status
     = (empty_state\<lparr>console := [Log_status hello_status, Error_cross_posting (Rejected ''submission'')],
                    storage := [''1'' \<mapsto> \<lparr>bsky = None\<rparr>],
                    writes := [(''1'', \<lparr>bsky = None\<rparr>)]\<rparr>, None)
   \<and> ingestion_step ascii_lib world_write_fails empty_state hello_status
     = (empty_state\<lparr>console := [Log_status hello_status, Error_result_storage_failed (Rejected ''storage'')],
                    published := [hello_post]\<rparr>, None)"
proof -
  have a1: "mastodonStatusToBskyPost ascii_lib world_post_rejected (storage empty_state) hello_status
            = Inr hello_post"
    by (rule assemble_hello_in) (simp add: world_post_rejected_def world_ok_def)
  have p1: "agent_post world_post_rejected hello_post = Inl (Rejected ''submission'')"
    by (simp add: world_post_rejected_def)
  have s1: "setItem_error world_post_rejected (status_id hello_status) \<lparr>bsky = None\<rparr> = None"
    by (simp add: world_post_rejected_def world_ok_def)
  have h1: "(mastodonStatusToBskyPost ascii_lib world_post_rejected (storage empty_state) hello_status
               = Inl (Rejected ''submission'')
             \<or> (\<exists>p. mastodonStatusToBskyPost ascii_lib world_post_rejected (storage empty_state)
                       hello_status = Inr p
                    \<and> agent_post world_post_rejected p = Inl (Rejected ''submission'')))
            \<and> setItem_error world_post_rejected (status_id hello_status) \<lparr>bsky = None\<rparr> = None"
    using a1 p1 s1 by blast
  have a2: "mastodonStatusToBskyPost ascii_lib world_write_fails (storage empty_state) hello_status
            = Inr hello_post"
    by (rule assemble_hello_in) (simp add: world_write_fails_def world_ok_def)
  have p2: "agent_post world_write_fails hello_post = Inr post_1"
    by (simp add: world_write_fails_def world_ok_def)
  have s2: "setItem_error world_write_fails (status_id hello_status)
              \<lparr>bsky = Some \<lparr>entry_post = post_1,
                            entry_root = (case reply hello_post of
                                            Some r \<Rightarrow> Some (root r) | None \<Rightarrow> None)\<rparr>\<rparr>
            = Some (Rejected ''storage'')"
    by (simp add: world_write_fails_def)
  note c = failure_isolated_per_item [where L = ascii_lib and st = empty_state and s = hello_status and rest = "[]"]
  from c [where W = world_post_rejected and e = "Rejected ''submission''", THEN conjunct1, rule_format, OF h1]
  have r1: "ingestion_step ascii_lib world_post_rejected empty_state hello_status
     = (empty_state\<lparr>console := [Log_status hello_status, Error_cross_posting (Rejected ''submission'')],
                    storage := [''1'' \<mapsto> \<lparr>bsky = None\<rparr>],
                    writes := [(''1'', \<lparr>bsky = None\<rparr>)]\<rparr>, None)"
    by (simp add: Let_def empty_state_def hello_status_def)
  from c [where W = world_write_fails and p = hello_post and posted = post_1
            and e' = "Rejected ''storage''", THEN conjunct2, rule_format, OF conjI [OF a2 conjI [OF p2 s2]]]
  have r2: "ingestion_step ascii_lib world_write_fails empty_state hello_status
     = (empty_state\<lparr>console := [Log_status hello_status, Error_result_storage_failed (Rejected ''storage'')],
                    published := [hello_post]\<rparr>, None)"
    by (simp add: Let_def empty_state_def)
  from r1 r2 show ?thesis by (rule conjI)
qed

end
